theory Spec2Isabelle
  imports Main "HOL-Library.Char_ord" "HOL-Library.List_Lexorder" "HOL-Library.Multiset"
begin

section \<open>Lazy image stacks: the notebook \<open>3_lazy_image_processing.ipynb\<close>\<close>

text \<open>
  The notebook builds a lazy four-dimensional array over a directory of multi-page TIFF
  files and browses it plane by plane. Its own code is short: a sorted glob, the unpacking
  of the shape and element type of the file sequence, the one-page reader \<open>load_2d\<close>, the
  nested \<open>da.stack\<close> of deferred calls, the viewer \<open>browse_images\<close> with its callback
  \<open>view_image\<close>, and the maximum projections \<open>ims.max(-3)\<close> and \<open>ims.max(1)\<close>.
  Everything else is a call into Python's built-ins, tifffile, dask or numpy; each such
  call is modelled by a small definition that says which call it stands for.
\<close>

subsection \<open>Python values and exceptions\<close>

text \<open>
  The exceptions the modelled calls can raise. A \<open>ValueError\<close> carries the reason it was
  raised for, since several different calls raise one.
\<close>

datatype value_error =
    No_files_found          \<comment> \<open>tifffile.imread: the glob matched nothing\<close>
  | Unpack_count            \<comment> \<open>tuple unpacking: not four values\<close>
  | Stack_empty             \<comment> \<open>da.stack of an empty list\<close>
  | Stack_shapes            \<comment> \<open>da.stack of arrays of different shapes\<close>
  | Zero_size_reduction     \<comment> \<open>maximum over an axis of extent 0\<close>
  | Concat_shapes           \<comment> \<open>planes of different shapes meet in one reduction\<close>

datatype py_error =
    ValueError value_error
  | IndexError
  | TypeError
  | FileNotFoundError

text \<open>
  Python's \<open>xs[i]\<close> on a sequence of length \<open>n\<close>: an index from \<open>-n\<close> to \<open>-1\<close> counts from the
  end, and one outside \<open>-n \<dots> n - 1\<close> raises.
\<close>

definition py_index :: "'a list \<Rightarrow> int \<Rightarrow> py_error + 'a" where
  "py_index xs i =
     (if 0 \<le> i \<and> i < int (length xs) then Inr (xs ! nat i)
      else if - int (length xs) \<le> i \<and> i < 0 then Inr (xs ! nat (i + int (length xs)))
      else Inl IndexError)"

subsection \<open>Files on disk\<close>

text \<open>
  A plane is a two-dimensional array, a list of rows. A TIFF file is what tifffile shows of
  it: the shape and element type of its image series, and its pages, each one plane.
  A directory is the list of its entries in the order the operating system lists them.
\<close>

type_synonym 'a plane = "'a list list"

record 'a tiff =
  tiff_shape :: "nat list"
  tiff_dtype :: string
  pages :: "'a plane list"

type_synonym 'a disk = "(string \<times> 'a tiff) list"

text \<open>
  \<open>glob(file_pattern)\<close>: the paths that match the pattern, in directory order. The
  pattern is taken as the predicate that says which paths it matches.
\<close>

definition glob :: "'a disk \<Rightarrow> (string \<Rightarrow> bool) \<Rightarrow> string list" where
  "glob d pat = filter pat (map fst d)"

subsection \<open>The scan cell\<close>

text \<open>
  \<^verbatim>\<open>
  files = sorted(glob(file_pattern))
  zarr_arr = zarr.open(tifffile.imread(file_pattern, aszarr=True))
  N_t, N_z, N_x, N_y = zarr_arr.shape
  dtype = zarr_arr.dtype
  \<close>
  Python's \<open>sorted\<close> on strings is the lexicographic order of the code points, which is
  the order of \<open>string\<close> here (\<open>List_Lexorder\<close> over \<open>Char_ord\<close>).
\<close>

definition sorted_glob :: "'a disk \<Rightarrow> (string \<Rightarrow> bool) \<Rightarrow> string list" where
  "sorted_glob d pat = sort (glob d pat)"

text \<open>
  \<open>tifffile.imread(file_pattern, aszarr=True)\<close>, as far as the notebook uses it (the shape
  and element type of the store it returns). The function is tifffile's, not the
  notebook's, and the model follows the library: it globs the pattern itself and raises
  \<open>ValueError('no files found')\<close> on an empty match. A single matched file is opened as
  that file, so the store has the file's own shape. Two or more files are opened as a
  file sequence: the store's shape is the number of files followed by the shape of the
  one file the library reads to learn the chunk shape and element type, and no other
  file is looked at. Which file that is follows the library's own ordering of the
  matched paths; the model takes the choice as the parameter \<open>seq_first\<close>.
\<close>

definition imread_aszarr ::
  "(string list \<Rightarrow> string) \<Rightarrow> 'a disk \<Rightarrow> (string \<Rightarrow> bool) \<Rightarrow> py_error + (nat list \<times> string)" where
  "imread_aszarr seq_first d pat =
     (case glob d pat of
        [] \<Rightarrow> Inl (ValueError No_files_found)
      | [f] \<Rightarrow> (case map_of d f of
                 None \<Rightarrow> Inl FileNotFoundError
               | Some tf \<Rightarrow> Inr (tiff_shape tf, tiff_dtype tf))
      | f # g # fs \<Rightarrow> (case map_of d (seq_first (f # g # fs)) of
                 None \<Rightarrow> Inl FileNotFoundError
               | Some tf \<Rightarrow> Inr (Suc (Suc (length fs)) # tiff_shape tf, tiff_dtype tf)))"

text \<open>The notebook's globals after the scan cell.\<close>

record frame_index =
  files :: "string list"
  N_t :: nat
  N_z :: nat
  N_x :: nat
  N_y :: nat
  dtype :: string

definition scan ::
  "(string list \<Rightarrow> string) \<Rightarrow> 'a disk \<Rightarrow> (string \<Rightarrow> bool) \<Rightarrow> py_error + frame_index" where
  "scan seq_first d pat =
     (let fs = sorted_glob d pat in
      case imread_aszarr seq_first d pat of
        Inl e \<Rightarrow> Inl e
      | Inr (shape, dt) \<Rightarrow>
          (case shape of
             [nt, nz, nx, ny] \<Rightarrow>
               Inr \<lparr>files = fs, N_t = nt, N_z = nz, N_x = nx, N_y = ny, dtype = dt\<rparr>
           | _ \<Rightarrow> Inl (ValueError Unpack_count)))"

subsection \<open>Deferred calls and lazy arrays\<close>

text \<open>
  A deferred computation of one plane: the delayed call \<open>load_2d(t, z)\<close>, or the maximum
  over a list of deferred planes (what \<open>.max\<close> over an axis of whole chunks builds).
  The log of a computation records what it reads from disk; a deferred plane reads
  single pages only.
\<close>

datatype delayed = Load_2d nat nat | Max_planes "delayed list"

datatype io_event =
    Read_page string nat    \<comment> \<open>one page of a file: \<open>TiffFile(path).pages[z].asarray()\<close>\<close>
  | Read_file string        \<comment> \<open>every page of a file: \<open>tifffile.imread(path)\<close>\<close>

text \<open>
  \<open>tifffile.TiffFile(path).pages[z].asarray()\<close>: open the file, take page \<open>z\<close>, read
  that page and nothing else.
\<close>

definition read_page ::
  "'a disk \<Rightarrow> string \<Rightarrow> nat \<Rightarrow> (py_error + 'a plane) \<times> io_event list" where
  "read_page d path z =
     (case map_of d path of
        None \<Rightarrow> (Inl FileNotFoundError, [])
      | Some tf \<Rightarrow>
          if z < length (pages tf)
          then (Inr (pages tf ! z), [Read_page path z])
          else (Inl IndexError, []))"

text \<open>
  \<^verbatim>\<open>
  def load_2d(t, z):
      return tifffile.TiffFile(files[t]).pages[z].asarray()
  \<close>
  It is only ever called with \<open>t\<close> and \<open>z\<close> drawn from \<open>range\<close>, so both are naturals.
\<close>

definition load_2d ::
  "'a disk \<Rightarrow> string list \<Rightarrow> nat \<Rightarrow> nat \<Rightarrow> (py_error + 'a plane) \<times> io_event list" where
  "load_2d d fs t z =
     (if t < length fs then read_page d (fs ! t) z else (Inl IndexError, []))"

text \<open>
  A lazy array with at least two axes: its shape, its element type, and for each index
  over the leading axes the deferred computation of the plane over the trailing two.
  \<open>Leaf\<close> is a two-dimensional array of one chunk, \<open>Node\<close> a stack of arrays.
\<close>

datatype 'a nd = Leaf 'a | Node "'a nd list"

record darray =
  da_shape :: "nat list"
  da_dtype :: string
  blocks :: "delayed nd"

text \<open>\<open>da.from_delayed(value, shape=(N_x, N_y), dtype=dtype)\<close>\<close>

definition from_delayed :: "delayed \<Rightarrow> nat \<times> nat \<Rightarrow> string \<Rightarrow> darray" where
  "from_delayed v sh dt = \<lparr>da_shape = [fst sh, snd sh], da_dtype = dt, blocks = Leaf v\<rparr>"

text \<open>
  The element type of a stack is numpy's common type of the element types of its arrays:
  the type itself when they all agree, which is all the notebook ever stacks. The model
  does not know numpy's promotion table and writes the common type of differing types as
  the expression that names it.
\<close>

definition result_type :: "string list \<Rightarrow> string" where
  "result_type dts =
     (case dts of
        [] \<Rightarrow> []
      | dt # rest \<Rightarrow>
          if list_all (\<lambda>t. t = dt) rest then dt
          else ''result_type('' @ concat (map (\<lambda>t. t @ '','') dts) @ '')'')"

text \<open>
  \<open>da.stack(seq)\<close> along a new first axis: it refuses an empty list and arrays of
  different shapes.
\<close>

definition da_stack :: "darray list \<Rightarrow> py_error + darray" where
  "da_stack xs =
     (case xs of
        [] \<Rightarrow> Inl (ValueError Stack_empty)
      | a # _ \<Rightarrow>
          if list_all (\<lambda>b. da_shape b = da_shape a) xs
          then Inr \<lparr>da_shape = length xs # da_shape a,
                    da_dtype = result_type (map da_dtype xs),
                    blocks = Node (map blocks xs)\<rparr>
          else Inl (ValueError Stack_shapes))"

text \<open>A list comprehension whose body may raise: the first exception ends it.\<close>

fun collect :: "('e + 'a) list \<Rightarrow> 'e + 'a list" where
  "collect [] = Inr []"
| "collect (Inl e # _) = Inl e"
| "collect (Inr x # rs) = (case collect rs of Inl e \<Rightarrow> Inl e | Inr xs \<Rightarrow> Inr (x # xs))"

text \<open>
  \<^verbatim>\<open>
  ims = da.stack([
          da.stack([
              da.from_delayed(load_2d(t, z), shape=(N_x, N_y), dtype=dtype)
              for z in range(N_z)])
          for t in range(N_t)])
  \<close>
\<close>

definition ims :: "frame_index \<Rightarrow> py_error + darray" where
  "ims idx =
     (case collect (map (\<lambda>t. da_stack (map (\<lambda>z. from_delayed (Load_2d t z) (N_x idx, N_y idx) (dtype idx))
                                          [0..<N_z idx]))
                        [0..<N_t idx]) of
        Inl e \<Rightarrow> Inl e
      | Inr stacks \<Rightarrow> da_stack stacks)"

text \<open>The scan cell followed by the cell that builds \<open>ims\<close>.\<close>

definition open_dataset ::
  "(string list \<Rightarrow> string) \<Rightarrow> 'a disk \<Rightarrow> (string \<Rightarrow> bool) \<Rightarrow> py_error + (frame_index \<times> darray)" where
  "open_dataset seq_first d pat =
     (case scan seq_first d pat of
        Inl e \<Rightarrow> Inl e
      | Inr idx \<Rightarrow> (case ims idx of Inl e \<Rightarrow> Inl e | Inr a \<Rightarrow> Inr (idx, a)))"

text \<open>
  The blocks of \<open>ims\<close> written out: entry \<open>t\<close> of the outer stack is the stack of the
  deferred planes of time point \<open>t\<close>.
\<close>

definition ims_blocks :: "nat \<Rightarrow> nat \<Rightarrow> delayed nd" where
  "ims_blocks nt nz = Node (map (\<lambda>t. Node (map (\<lambda>z. Leaf (Load_2d t z)) [0..<nz])) [0..<nt])"

subsection \<open>Computing a lazy plane\<close>

text \<open>
  The element-wise maximum of planes of one shape, as numpy computes \<open>max\<close> over the axis
  along which the planes are stacked. An empty stack has no maximum, and planes of
  different shapes cannot be put together.
\<close>

definition maximum :: "'a::linorder plane \<Rightarrow> 'a plane \<Rightarrow> 'a plane" where
  "maximum p q = map2 (map2 max) p q"

definition reduce_max :: "'a::linorder plane list \<Rightarrow> py_error + 'a plane" where
  "reduce_max ps =
     (case ps of
        [] \<Rightarrow> Inl (ValueError Zero_size_reduction)
      | p # qs \<Rightarrow>
          if list_all (\<lambda>q. map length q = map length p) qs
          then Inr (fold (\<lambda>q acc. maximum acc q) qs p)
          else Inl (ValueError Concat_shapes))"

text \<open>
  \<open>.compute()\<close> of a deferred plane. The tasks of a reduction are run in list order and
  the first exception ends the computation; the log keeps the page reads done so far.
\<close>

fun compute ::
  "'a::linorder disk \<Rightarrow> string list \<Rightarrow> delayed \<Rightarrow> (py_error + 'a plane) \<times> io_event list"
and compute_all ::
  "'a::linorder disk \<Rightarrow> string list \<Rightarrow> delayed list \<Rightarrow> (py_error + 'a plane list) \<times> io_event list"
where
  "compute d fs (Load_2d t z) = load_2d d fs t z"
| "compute d fs (Max_planes ts) =
     (case compute_all d fs ts of
        (Inl e, log) \<Rightarrow> (Inl e, log)
      | (Inr ps, log) \<Rightarrow> (reduce_max ps, log))"
| "compute_all d fs [] = (Inr [], [])"
| "compute_all d fs (t # ts) =
     (case compute d fs t of
        (Inl e, log) \<Rightarrow> (Inl e, log)
      | (Inr p, log) \<Rightarrow>
          (case compute_all d fs ts of
             (Inl e, log') \<Rightarrow> (Inl e, log @ log')
           | (Inr ps, log') \<Rightarrow> (Inr (p # ps), log @ log')))"

text \<open>
  \<open>a[pos]\<close> for a tuple of integers over the leading axes. Each index is checked against
  the extent of its axis as Python does. A tuple shorter than the leading axes selects a
  stack of planes. The model does not index inside a plane: no caller does.
\<close>

fun getitem :: "'a nd \<Rightarrow> int list \<Rightarrow> py_error + 'a nd" where
  "getitem a [] = Inr a"
| "getitem (Node xs) (i # js) =
     (case py_index xs i of Inl e \<Rightarrow> Inl e | Inr a \<Rightarrow> getitem a js)"
| "getitem (Leaf x) (i # js) = Inl IndexError"

text \<open>
  \<open>a[pos]\<close> computed for display. An index tuple over all leading axes selects one block,
  and nothing but that block is computed. A shorter tuple selects a stack of planes: all
  of its planes are computed, and the stack is then not an image of one plane. \<open>imshow\<close>
  raises \<open>TypeError\<close> for it, unless it holds three or four planes, which \<open>imshow\<close> draws
  as the colour channels of one image; a result of planes cannot say that, and the model
  gives \<open>TypeError\<close> there too. The viewer always passes a full tuple.
\<close>

fun leaves :: "'a nd \<Rightarrow> 'a list" where
  "leaves (Leaf x) = [x]"
| "leaves (Node xs) = concat (map leaves xs)"

definition compute_at ::
  "'a::linorder disk \<Rightarrow> string list \<Rightarrow> darray \<Rightarrow> int list \<Rightarrow> (py_error + 'a plane) \<times> io_event list" where
  "compute_at d fs a pos =
     (case getitem (blocks a) pos of
        Inl e \<Rightarrow> (Inl e, [])
      | Inr (Leaf task) \<Rightarrow> compute d fs task
      | Inr (Node xs) \<Rightarrow>
          (case compute_all d fs (leaves (Node xs)) of
             (Inl e, log) \<Rightarrow> (Inl e, log)
           | (Inr _, log) \<Rightarrow> (Inl TypeError, log)))"

subsection \<open>The viewer\<close>

text \<open>\<open>'dim %s' % dim\<close>: the decimal numeral of \<open>dim\<close> after the prefix.\<close>

definition digit :: "nat \<Rightarrow> char" where
  "digit n = char_of (48 + n)"

fun str :: "nat \<Rightarrow> string" where
  "str n = (if n < 10 then [digit n] else str (n div 10) @ [digit (n mod 10)])"

declare str.simps [simp del]

definition dim_name :: "nat \<Rightarrow> string" where
  "dim_name k = ''dim '' @ str k"

text \<open>
  \<^verbatim>\<open>
  scroll_shape = ims.shape[:-2]
  interact(view_image,
           **{'dim %s' %dim: (0, s-1) for dim, s in enumerate(scroll_shape)})
  \<close>
  One integer slider per leading axis, named after the axis, with its minimum and
  maximum.
\<close>

definition scroll_shape :: "darray \<Rightarrow> nat list" where
  "scroll_shape a = take (length (da_shape a) - 2) (da_shape a)"

definition sliders :: "darray \<Rightarrow> (string \<times> int \<times> int) list" where
  "sliders a = map (\<lambda>(dim, s). (dim_name dim, 0, int s - 1)) (enumerate 0 (scroll_shape a))"

text \<open>\<open>.T\<close> of a two-dimensional array: rows become columns.\<close>

definition T :: "'a plane \<Rightarrow> 'a plane" where
  "T p = (case p of [] \<Rightarrow> [] | r # _ \<Rightarrow> map (\<lambda>i. map (\<lambda>row. row ! i) p) [0..<length r])"

text \<open>
  \<^verbatim>\<open>
  def view_image(**kwargs):
      pos = tuple(kwargs[dim] for dim in sorted(kwargs))
      plt.imshow(ims[tuple(pos)].T, cmap=plt.cm.gray_r, interpolation='nearest')
      if show_colorbar:
          plt.colorbar()
  \<close>
  The colour bar is left out. \<open>kwargs\<close> is the dictionary of the slider values by slider name, a list of pairs with
  distinct keys. The result is the image handed to \<open>imshow\<close>, which draws element
  \<open>(i, j)\<close> of it at row \<open>i\<close>, column \<open>j\<close>.
\<close>

definition pos :: "(string \<times> int) list \<Rightarrow> int list" where
  "pos kwargs = map (\<lambda>dim. the (map_of kwargs dim)) (sort (map fst kwargs))"

definition view_image ::
  "'a::linorder disk \<Rightarrow> string list \<Rightarrow> darray \<Rightarrow> (string \<times> int) list \<Rightarrow> (py_error + 'a plane) \<times> io_event list" where
  "view_image d fs a kwargs =
     (case compute_at d fs a (pos kwargs) of
        (Inl e, log) \<Rightarrow> (Inl e, log)
      | (Inr p, log) \<Rightarrow> (Inr (T p), log))"

text \<open>
  An array whose blocks fit its leading axes: a stack of extent \<open>s\<close> has \<open>s\<close> entries, and
  under the last leading axis lie single planes. \<open>block_at\<close> is the entry at a tuple of
  positions counted from zero, and \<open>wrap\<close> the position that Python's indexing gives to a
  value from \<open>-s\<close> to \<open>s - 1\<close> on an axis of extent \<open>s\<close>.
\<close>

fun conforms :: "nat list \<Rightarrow> 'a nd \<Rightarrow> bool" where
  "conforms [] (Leaf x) = True"
| "conforms (s # ss) (Node xs) = (length xs = s \<and> list_all (conforms ss) xs)"
| "conforms [] (Node xs) = False"
| "conforms (s # ss) (Leaf x) = False"

fun block_at :: "'a nd \<Rightarrow> nat list \<Rightarrow> 'a nd" where
  "block_at a [] = a"
| "block_at (Node xs) (k # ks) = block_at (xs ! k) ks"
| "block_at (Leaf x) (k # ks) = Leaf x"

definition wrap :: "int \<Rightarrow> nat \<Rightarrow> nat" where
  "wrap v s = nat (if v < 0 then v + int s else v)"

text \<open>\<open>kwargs['dim %s' % k]\<close>: the value of the slider of axis \<open>k\<close>.\<close>

definition slider_value :: "(string \<times> int) list \<Rightarrow> nat \<Rightarrow> int" where
  "slider_value kwargs k = the (map_of kwargs (dim_name k))"

text \<open>
  An integer slider of ipywidgets keeps its value within its bounds: a value given to it
  is capped and floored (\<open>value = min(max(value, self.min), self.max)\<close>) and no error is
  raised. After a change \<open>interact\<close> calls the function with the values of all sliders.
  \<open>set_slider\<close> is the dictionary of those values once the slider \<open>name\<close> was given \<open>v\<close>.
  \<open>in_slider_ranges\<close> holds of a dictionary with one value per slider, each within the
  bounds of its slider: the dictionaries \<open>interact\<close> calls \<open>view_image\<close> with.
\<close>

definition bounded_value :: "int \<times> int \<Rightarrow> int \<Rightarrow> int" where
  "bounded_value r v = min (max v (fst r)) (snd r)"

definition set_slider :: "darray \<Rightarrow> (string \<times> int) list \<Rightarrow> string \<Rightarrow> int \<Rightarrow> (string \<times> int) list" where
  "set_slider a kwargs name v =
     (case map_of (sliders a) name of
        None \<Rightarrow> kwargs
      | Some r \<Rightarrow> map (\<lambda>(n, x). (n, if n = name then bounded_value r v else x)) kwargs)"

definition in_slider_ranges :: "darray \<Rightarrow> (string \<times> int) list \<Rightarrow> bool" where
  "in_slider_ranges a kwargs =
     (distinct (map fst kwargs) \<and> set (map fst kwargs) = set (map fst (sliders a)) \<and>
      list_all (\<lambda>(n, x). case map_of (sliders a) n of
                            None \<Rightarrow> False
                          | Some (lo, hi) \<Rightarrow> lo \<le> x \<and> x \<le> hi) kwargs)"

subsection \<open>Maximum projection\<close>

text \<open>
  \<open>ims.max(-3)\<close> and \<open>ims.max(1)\<close>. numpy counts a negative axis from the end and refuses
  an axis outside the array (with its \<open>AxisError\<close>, an \<open>IndexError\<close>). The notebook projects along the axis third from last (both
  calls name it, the array having four axes), whose slices are whole chunks: every
  innermost stack of planes becomes one deferred maximum. Projection along another axis
  is not modelled (\<open>None\<close>).
\<close>

definition normalize_axis :: "int \<Rightarrow> nat \<Rightarrow> py_error + nat" where
  "normalize_axis axis ndim =
     (let ax = (if axis < 0 then axis + int ndim else axis)
      in if 0 \<le> ax \<and> ax < int ndim then Inr (nat ax) else Inl IndexError)"

fun unleaf :: "'a nd \<Rightarrow> 'a list" where
  "unleaf (Leaf x) = [x]"
| "unleaf (Node xs) = []"

fun project :: "nat \<Rightarrow> delayed nd \<Rightarrow> delayed nd" where
  "project 0 (Node xs) = Leaf (Max_planes (concat (map unleaf xs)))"
| "project (Suc k) (Node xs) = Node (map (project k) xs)"
| "project k (Leaf x) = Leaf x"

definition da_max :: "darray \<Rightarrow> int \<Rightarrow> (py_error + darray) option" where
  "da_max a axis =
     (case normalize_axis axis (length (da_shape a)) of
        Inl e \<Rightarrow> Some (Inl e)
      | Inr ax \<Rightarrow>
          if ax + 3 = length (da_shape a)
          then Some (Inr \<lparr>da_shape = take ax (da_shape a) @ drop (Suc ax) (da_shape a),
                          da_dtype = da_dtype a,
                          blocks = project ax (blocks a)\<rparr>)
          else None)"

subsection \<open>Blocks with overlap (the notebook \<open>2_dask_with_images\<close>)\<close>

text \<open>
  \<^verbatim>\<open>
  img_da = da.from_array(img, chunks=(500, 500))
  filtered_overlap = da.map_overlap(ndimage.gaussian_filter, img_da,
                                    sigma=5, mode='constant', depth={0: 11, 1: 11})
  \<close>
  The notebook says what the call does: it adds neighbouring chunk values to the borders
  of each chunk, applies the function to each extended chunk, and trims the overlap that
  was added. The function \<open>map_overlap\<close> itself belongs to dask and the filter to scipy.
\<close>

text \<open>
  A two-dimensional array is a list of rows of one width. \<open>lookup\<close> reads an element at a
  position that may lie outside the array.
\<close>

definition width :: "'a plane \<Rightarrow> nat" where
  "width a = (case a of [] \<Rightarrow> 0 | r # _ \<Rightarrow> length r)"

definition rectangular :: "'a plane \<Rightarrow> bool" where
  "rectangular a = list_all (\<lambda>r. length r = width a) a"

definition lookup :: "'a plane \<Rightarrow> int \<Rightarrow> int \<Rightarrow> 'a option" where
  "lookup a i j =
     (if 0 \<le> i \<and> i < int (length a) \<and> 0 \<le> j \<and> j < int (length (a ! nat i))
      then Some (a ! nat i ! nat j) else None)"

text \<open>
  Modelled from the spec: a neighbourhood transform, which the notebook takes from scipy
  (\<open>ndimage.gaussian_filter\<close>). Its support is the radius \<open>r\<close> per axis: each output
  element is the kernel \<open>k\<close> applied to the window of the input elements at most \<open>r\<close> away
  from it. A position of the window outside the array shows as \<open>None\<close>, and what the kernel
  makes of it is its border policy; the output has the shape of the input.
\<close>

definition window :: "'a plane \<Rightarrow> nat \<times> nat \<Rightarrow> nat \<Rightarrow> nat \<Rightarrow> int \<Rightarrow> int \<Rightarrow> 'a option" where
  "window a r y x =
     (\<lambda>dy dx. if \<bar>dy\<bar> \<le> int (fst r) \<and> \<bar>dx\<bar> \<le> int (snd r)
               then lookup a (int y + dy) (int x + dx) else None)"

definition neighbourhood ::
  "((int \<Rightarrow> int \<Rightarrow> 'a option) \<Rightarrow> 'b) \<Rightarrow> nat \<times> nat \<Rightarrow> 'a plane \<Rightarrow> 'b plane" where
  "neighbourhood k r a =
     map (\<lambda>y. map (\<lambda>x. k (window a r y x)) [0..<length (a ! y)]) [0..<length a]"

text \<open>\<open>a[y0:y1, x0:x1]\<close> for bounds \<open>ys = (y0, y1)\<close> and \<open>xs = (x0, x1)\<close> counted from zero.\<close>

definition crop :: "'a plane \<Rightarrow> nat \<times> nat \<Rightarrow> nat \<times> nat \<Rightarrow> 'a plane" where
  "crop a ys xs =
     map (\<lambda>row. take (snd xs - fst xs) (drop (fst xs) row))
         (take (snd ys - fst ys) (drop (fst ys) a))"

text \<open>
  Modelled from the spec: the map-with-overlap mechanism, which is dask's \<open>map_overlap\<close>;
  the notebook holds the call and the three steps quoted above. For the block with
  bounds \<open>ys\<close> and \<open>xs\<close> and the margin \<open>depth\<close> per axis: fetch the block padded by the
  margin on every side, clamped at the bounds of the array (the subtraction on naturals
  stops at zero); apply \<open>f\<close>; return the part of the result that lies over the block.
\<close>

definition overlap_block ::
  "('a plane \<Rightarrow> 'b plane) \<Rightarrow> 'a plane \<Rightarrow> nat \<times> nat \<Rightarrow> nat \<times> nat \<Rightarrow> nat \<times> nat \<Rightarrow> 'b plane" where
  "overlap_block f a depth ys xs =
     (let ylo = fst ys - fst depth; yhi = min (length a) (snd ys + fst depth);
          xlo = fst xs - snd depth; xhi = min (width a) (snd xs + snd depth)
      in crop (f (crop a (ylo, yhi) (xlo, xhi)))
              (fst ys - ylo, snd ys - ylo) (fst xs - xlo, snd xs - xlo))"

subsection \<open>Well-formed datasets\<close>

text \<open>
  A file that holds \<open>Z\<close> planes of \<open>Y\<close> rows and \<open>X\<close> columns and reports that shape, and a
  list of paths that all name such files.
\<close>

definition plane_stack :: "nat \<Rightarrow> nat \<Rightarrow> nat \<Rightarrow> 'a tiff \<Rightarrow> bool" where
  "plane_stack Z Y X tf =
     (tiff_shape tf = [Z, Y, X] \<and> length (pages tf) = Z \<and>
      list_all (\<lambda>p. length p = Y \<and> list_all (\<lambda>r. length r = X) p) (pages tf))"

definition all_plane_stacks :: "'a disk \<Rightarrow> string list \<Rightarrow> nat \<Rightarrow> nat \<Rightarrow> nat \<Rightarrow> bool" where
  "all_plane_stacks d fs Z Y X =
     list_all (\<lambda>p. case map_of d p of None \<Rightarrow> False | Some tf \<Rightarrow> plane_stack Z Y X tf) fs"

subsection \<open>A small dataset\<close>

text \<open>
  The notebook's pattern \<open>data/large_3d_dataset_tp*.tif\<close> as a predicate, and a directory of
  five such files with three planes of ten by ten pixels each, listed out of order beside a
  file the pattern does not match. \<open>first_matched\<close> is the file tifffile's sequence reader
  opens: the first path in the order the glob returned them.
\<close>

definition file_pattern :: "string \<Rightarrow> bool" where
  "file_pattern p =
     (28 \<le> length p \<and> take 24 p = ''data/large_3d_dataset_tp'' \<and>
      drop (length p - 4) p = ''.tif'' \<and>
      CHR ''/'' \<notin> set (take (length p - 28) (drop 24 p)))"

definition scenario_plane :: "nat \<Rightarrow> nat \<Rightarrow> nat \<Rightarrow> nat \<Rightarrow> nat plane" where
  "scenario_plane ny nx t z =
     map (\<lambda>y. map (\<lambda>x. (7 * t + 5 * z + 3 * y + x) mod 11) [0..<nx]) [0..<ny]"

definition scenario_tiff :: "nat \<Rightarrow> nat \<Rightarrow> nat \<Rightarrow> nat \<Rightarrow> nat tiff" where
  "scenario_tiff nz ny nx t =
     \<lparr>tiff_shape = [nz, ny, nx], tiff_dtype = ''uint16'',
      pages = map (scenario_plane ny nx t) [0..<nz]\<rparr>"

definition scenario_disk :: "nat disk" where
  "scenario_disk =
     [(''data/large_3d_dataset_tp003.tif'', scenario_tiff 3 10 10 3),
      (''data/large_3d_dataset_tp000.tif'', scenario_tiff 3 10 10 0),
      (''data/notes.txt'', scenario_tiff 1 1 1 9),
      (''data/large_3d_dataset_tp004.tif'', scenario_tiff 3 10 10 4),
      (''data/large_3d_dataset_tp001.tif'', scenario_tiff 3 10 10 1),
      (''data/large_3d_dataset_tp002.tif'', scenario_tiff 3 10 10 2)]"

definition scenario_files :: "string list" where
  "scenario_files =
     [''data/large_3d_dataset_tp000.tif'', ''data/large_3d_dataset_tp001.tif'',
      ''data/large_3d_dataset_tp002.tif'', ''data/large_3d_dataset_tp003.tif'',
      ''data/large_3d_dataset_tp004.tif'']"

definition first_matched :: "string list \<Rightarrow> string" where
  "first_matched fs = hd fs"

text \<open>What the scan and the build make of the five files.\<close>

definition scenario_index :: frame_index where
  "scenario_index =
     \<lparr>files = scenario_files, N_t = 5, N_z = 3, N_x = 10, N_y = 10, dtype = ''uint16''\<rparr>"

definition scenario_ims :: darray where
  "scenario_ims = \<lparr>da_shape = [5, 3, 10, 10], da_dtype = ''uint16'', blocks = ims_blocks 5 3\<rparr>"

text \<open>The maximum projection of that lazy volume along its depth axis.\<close>

definition scenario_max :: darray where
  "scenario_max =
     \<lparr>da_shape = [5, 10, 10], da_dtype = ''uint16'',
      blocks = Node (map (\<lambda>t. Leaf (Max_planes (map (Load_2d t) [0..<3]))) [0..<5])\<rparr>"

text \<open>
  A directory with a single time point, and one whose third file has planes of ten by
  twelve pixels among files of ten by ten.
\<close>

definition single_disk :: "nat disk" where
  "single_disk = [(''data/large_3d_dataset_tp000.tif'', scenario_tiff 3 10 10 0)]"

definition mixed_disk :: "nat disk" where
  "mixed_disk =
     [(''data/large_3d_dataset_tp000.tif'', scenario_tiff 3 10 10 0),
      (''data/large_3d_dataset_tp001.tif'', scenario_tiff 3 10 10 1),
      (''data/large_3d_dataset_tp002.tif'', scenario_tiff 3 10 12 2),
      (''data/large_3d_dataset_tp003.tif'', scenario_tiff 3 10 10 3),
      (''data/large_3d_dataset_tp004.tif'', scenario_tiff 3 10 10 4)]"

text \<open>
  Two directories whose lazy volume has in-bounds planes that no file holds. In the first
  the second of two files holds one plane where the first holds three. In the second a
  single file holds a series of four axes, two time points of three planes, which the
  scan takes for two files.
\<close>

definition short_disk :: "nat disk" where
  "short_disk =
     [(''data/large_3d_dataset_tp000.tif'', scenario_tiff 3 10 10 0),
      (''data/large_3d_dataset_tp001.tif'', scenario_tiff 1 10 10 1)]"

definition series_disk :: "nat disk" where
  "series_disk =
     [(''data/large_3d_dataset_tp000.tif'',
       \<lparr>tiff_shape = [2, 3, 10, 10], tiff_dtype = ''uint16'',
        pages = concat (map (\<lambda>t. map (scenario_plane 10 10 t) [0..<3]) [0..<2])\<rparr>)]"

definition short_index :: frame_index where
  "short_index =
     \<lparr>files = [''data/large_3d_dataset_tp000.tif'', ''data/large_3d_dataset_tp001.tif''],
      N_t = 2, N_z = 3, N_x = 10, N_y = 10, dtype = ''uint16''\<rparr>"

definition series_index :: frame_index where
  "series_index =
     \<lparr>files = [''data/large_3d_dataset_tp000.tif''],
      N_t = 2, N_z = 3, N_x = 10, N_y = 10, dtype = ''uint16''\<rparr>"

definition short_ims :: darray where
  "short_ims = \<lparr>da_shape = [2, 3, 10, 10], da_dtype = ''uint16'', blocks = ims_blocks 2 3\<rparr>"

text \<open>
  An array of eleven leading axes, ten of extent one around a stack of the first two
  planes of the first time point, and a value for each of its sliders: the last slider
  at 1, the others at 0.
\<close>

fun nest :: "nat \<Rightarrow> 'a nd \<Rightarrow> 'a nd" where
  "nest 0 b = b"
| "nest (Suc n) b = Node [nest n b]"

definition eleven_axes :: darray where
  "eleven_axes =
     \<lparr>da_shape = [1, 1, 1, 1, 1, 1, 1, 1, 1, 1, 2, 10, 10], da_dtype = ''uint16'',
      blocks = nest 10 (Node [Leaf (Load_2d 0 0), Leaf (Load_2d 0 1)])\<rparr>"

definition eleven_kwargs :: "(string \<times> int) list" where
  "eleven_kwargs =
     [(''dim 0'', 0), (''dim 1'', 0), (''dim 2'', 0), (''dim 3'', 0), (''dim 4'', 0),
      (''dim 5'', 0), (''dim 6'', 0), (''dim 7'', 0), (''dim 8'', 0), (''dim 9'', 0),
      (''dim 10'', 1)]"

text \<open>
  A transform to try the mechanism on: the sum of the elements at most one step away,
  positions outside the array counting as zero.
\<close>

definition box_sum :: "(int \<Rightarrow> int \<Rightarrow> nat option) \<Rightarrow> nat" where
  "box_sum w =
     sum_list (map (\<lambda>(dy, dx). case w dy dx of None \<Rightarrow> 0 | Some v \<Rightarrow> v)
                   (List.product [- 1, 0, 1] [- 1, 0, 1]))"

section \<open>Properties\<close>

subsection \<open>Building the lazy volume\<close>

lemma collect_map_Inr: "collect (map (\<lambda>x. Inr (f x)) xs) = Inr (map f xs)"
  by (induction xs) simp_all

lemma collect_Inl_first: "xs \<noteq> [] \<Longrightarrow> collect (map (\<lambda>x. Inl e) xs) = Inl e"
  by (cases xs) simp_all

lemma result_type_same:
  assumes "dts \<noteq> []" and "\<And>t. t \<in> set dts \<Longrightarrow> t = dt"
  shows "result_type dts = dt"
proof -
  obtain u us where dts: "dts = u # us" using assms(1) by (cases dts) auto
  have "u = dt" using assms(2) dts by simp
  moreover have "list_all (\<lambda>t. t = dt) us" using assms(2) dts by (simp add: list_all_iff)
  ultimately show ?thesis by (simp add: result_type_def dts)
qed

lemma da_stack_uniform:
  assumes "xs \<noteq> []" and "\<And>x. x \<in> set xs \<Longrightarrow> da_shape (f x) = sh \<and> da_dtype (f x) = dt"
  shows "da_stack (map f xs) =
         Inr \<lparr>da_shape = length xs # sh, da_dtype = dt, blocks = Node (map (blocks \<circ> f) xs)\<rparr>"
proof -
  obtain y ys where xs: "xs = y # ys" using assms(1) by (cases xs) auto
  have all: "list_all (\<lambda>b. da_shape b = da_shape (f y)) (map f xs)"
    using assms(2) xs by (auto simp: list_all_iff)
  have dt: "result_type (map da_dtype (map f xs)) = dt"
    using assms by (intro result_type_same) auto
  have sh: "da_shape (f y) = sh" using assms(2) [of y] xs by simp
  have "da_stack (map f xs) =
        Inr \<lparr>da_shape = length (map f xs) # da_shape (f y),
             da_dtype = result_type (map da_dtype (map f xs)),
             blocks = Node (map blocks (map f xs))\<rparr>"
    using all unfolding da_stack_def xs by simp
  thus ?thesis unfolding dt sh by simp
qed

lemma da_stack_planes:
  assumes "0 < n"
  shows "da_stack (map (\<lambda>z. from_delayed (g z) (x, y) dt) [0..<n]) =
         Inr \<lparr>da_shape = [n, x, y], da_dtype = dt, blocks = Node (map (\<lambda>z. Leaf (g z)) [0..<n])\<rparr>"
proof -
  have ne: "[0..<n] \<noteq> []" using assms by simp
  show ?thesis
    using da_stack_uniform [of "[0..<n]" "\<lambda>z. from_delayed (g z) (x, y) dt" "[x, y]" dt, OF ne]
    by (simp add: from_delayed_def comp_def)
qed

lemma ims_built:
  assumes "0 < N_t idx" and "0 < N_z idx"
  shows "ims idx = Inr \<lparr>da_shape = [N_t idx, N_z idx, N_x idx, N_y idx], da_dtype = dtype idx,
                        blocks = ims_blocks (N_t idx) (N_z idx)\<rparr>"
proof -
  let ?row = "\<lambda>t. \<lparr>da_shape = [N_z idx, N_x idx, N_y idx], da_dtype = dtype idx,
                    blocks = Node (map (\<lambda>z. Leaf (Load_2d t z)) [0..<N_z idx])\<rparr>"
  have rows: "map (\<lambda>t. da_stack (map (\<lambda>z. from_delayed (Load_2d t z) (N_x idx, N_y idx) (dtype idx)) [0..<N_z idx])) [0..<N_t idx]
              = map (\<lambda>t. Inr (?row t)) [0..<N_t idx]"
    using assms(2) by (simp add: da_stack_planes)
  have ne: "[0..<N_t idx] \<noteq> []" using assms(1) by simp
  have "da_stack (map ?row [0..<N_t idx]) =
        Inr \<lparr>da_shape = length [0..<N_t idx] # [N_z idx, N_x idx, N_y idx], da_dtype = dtype idx,
             blocks = Node (map (blocks \<circ> ?row) [0..<N_t idx])\<rparr>"
    by (rule da_stack_uniform [OF ne]) simp
  then show ?thesis
    unfolding ims_def rows collect_map_Inr by (simp add: ims_blocks_def comp_def)
qed

lemma ims_empty:
  assumes "N_t idx = 0 \<or> N_z idx = 0"
  shows "ims idx = Inl (ValueError Stack_empty)"
proof (cases "N_t idx = 0")
  case True
  then show ?thesis by (simp add: ims_def da_stack_def)
next
  case False
  then have z: "N_z idx = 0" and ne: "[0..<N_t idx] \<noteq> []" using assms by auto
  have rows: "map (\<lambda>t. da_stack (map (\<lambda>z. from_delayed (Load_2d t z) (N_x idx, N_y idx) (dtype idx)) [0..<N_z idx])) [0..<N_t idx]
        = map (\<lambda>t. Inl (ValueError Stack_empty)) [0..<N_t idx]"
    by (simp add: z da_stack_def)
  show ?thesis
    unfolding ims_def rows collect_Inl_first [OF ne] by simp
qed

lemma ims_Inr_iff:
  "ims idx = Inr a \<longleftrightarrow>
     0 < N_t idx \<and> 0 < N_z idx \<and>
     a = \<lparr>da_shape = [N_t idx, N_z idx, N_x idx, N_y idx], da_dtype = dtype idx,
          blocks = ims_blocks (N_t idx) (N_z idx)\<rparr>"
  using ims_built [of idx] ims_empty [of idx] by (cases "N_t idx = 0 \<or> N_z idx = 0") auto

lemma py_index_nat: "n < length xs \<Longrightarrow> py_index xs (int n) = Inr (xs ! n)"
  by (simp add: py_index_def)

lemma getitem_ims_blocks:
  assumes "t < nt" and "z < nz"
  shows "getitem (ims_blocks nt nz) [int t, int z] = Inr (Leaf (Load_2d t z))"
  using assms by (simp add: ims_blocks_def py_index_nat)

lemma scan_no_files:
  assumes "glob d pat = []"
  shows "scan sf d pat = Inl (ValueError No_files_found)"
  using assms by (simp add: scan_def imread_aszarr_def)

lemma scan_sequence:
  assumes "2 \<le> length (glob d pat)"
    and "map_of d (sf (glob d pat)) = Some tf"
    and "tiff_shape tf = [z, y, x]"
  shows "scan sf d pat =
         Inr \<lparr>files = sorted_glob d pat, N_t = length (glob d pat), N_z = z, N_x = y, N_y = x,
              dtype = tiff_dtype tf\<rparr>"
proof -
  obtain f g fs where g: "glob d pat = f # g # fs"
    using assms(1) by (cases "glob d pat"; cases "tl (glob d pat)") auto
  show ?thesis
    using assms(2,3) unfolding scan_def imread_aszarr_def g by simp
qed

lemma scan_files:
  assumes "scan sf d pat = Inr idx"
  shows "files idx = sorted_glob d pat"
  using assms
  by (auto simp: scan_def Let_def split: sum.splits prod.splits list.splits)

lemma open_dataset_Inr:
  assumes "open_dataset sf d pat = Inr (idx, a)"
  shows "scan sf d pat = Inr idx" and "ims idx = Inr a"
  using assms by (auto simp: open_dataset_def split: sum.splits)

lemma open_dataset_blocks:
  assumes "open_dataset sf d pat = Inr (idx, a)"
  shows "0 < N_t idx" and "0 < N_z idx"
    and "da_shape a = [N_t idx, N_z idx, N_x idx, N_y idx]"
    and "blocks a = ims_blocks (N_t idx) (N_z idx)"
  using open_dataset_Inr(2) [OF assms] by (simp_all add: ims_Inr_iff)

lemma compute_at_ims:
  assumes "open_dataset sf d pat = Inr (idx, a)" and "t < N_t idx" and "z < N_z idx"
  shows "compute_at d fs a [int t, int z] = load_2d d fs t z"
  using assms(2,3)
  by (simp add: compute_at_def open_dataset_blocks(4) [OF assms(1)] getitem_ims_blocks)

lemma read_page_Some:
  assumes "map_of d path = Some tf" and "z < length (pages tf)"
  shows "read_page d path z = (Inr (pages tf ! z), [Read_page path z])"
  using assms by (simp add: read_page_def)

lemma scenario_open:
  "open_dataset first_matched scenario_disk file_pattern = Inr (scenario_index, scenario_ims)"
  by code_simp

lemma sorted_lexord:
  fixes fs :: "string list"
  assumes "sorted fs"
  shows "sorted_wrt (\<lambda>p q. p = q \<or> (p, q) \<in> lexord {(a, b). (of_char a :: nat) < of_char b}) fs"
proof -
  have le: "\<And>p q :: string. p \<le> q \<Longrightarrow> p = q \<or> (p, q) \<in> lexord {(a, b). (of_char a :: nat) < of_char b}"
    unfolding list_le_def list_less_def less_char_def by blast
  show ?thesis
    by (rule sorted_wrt_mono_rel [OF _ assms]) (rule le)
qed

lemma set_sorted_glob: "set (sorted_glob d pat) = {p \<in> fst ` set d. pat p}"
  by (auto simp: sorted_glob_def glob_def)

subsection \<open>Claims about the scan\<close>

text \<open>
  Claim C6. When the pattern matches no file, the scan cell fails at once with the
  library's \<open>ValueError('no files found')\<close>: neither the frame index nor the lazy volume
  comes into being.
\<close>

theorem scan_no_files_found:
  assumes "glob d pat = []"
  shows "scan sf d pat = Inl (ValueError No_files_found) \<and>
         open_dataset sf d pat = Inl (ValueError No_files_found)"
  using scan_no_files [OF assms] by (simp add: open_dataset_def)

theorem scan_no_files_found_witness:
  "glob [(''data/notes.txt'', scenario_tiff 1 1 1 9)] file_pattern = [] \<and>
   scan first_matched [(''data/notes.txt'', scenario_tiff 1 1 1 9)] file_pattern
     = Inl (ValueError No_files_found) \<and>
   open_dataset first_matched [(''data/notes.txt'', scenario_tiff 1 1 1 9)] file_pattern
     = Inl (ValueError No_files_found)"
proof -
  have g: "glob [(''data/notes.txt'', scenario_tiff 1 1 1 9)] file_pattern = []"
    by code_simp
  show ?thesis
    using g scan_no_files_found [OF g, of first_matched] by simp
qed

lemma compute_at_ims_read_page:
  fixes d :: "'a::linorder disk"
  assumes "open_dataset sf d pat = Inr (idx, a)" and "t < N_t idx" and "z < N_z idx"
    and "t < length fs"
  shows "compute_at d fs a [int t, int z] = read_page d (fs ! t) z"
  unfolding compute_at_ims [OF assms(1-3)] load_2d_def using assms(4) by simp

text \<open>
  Claim C5. For every directory and pattern, the file list of the scan is the glob's
  result sorted: it holds exactly the entries of the directory that the pattern matches,
  each as often as the glob returned it, in the lexicographic order of the path strings
  by character code. That order is the time axis: whenever a lazy volume is built, its
  frame index carries this list, and the plane at \<open>(t, z)\<close> is read from the \<open>t\<close>-th path.
\<close>

theorem frame_locator_order:
  fixes d :: "'a::linorder disk"
  shows "set (sorted_glob d pat) = {p \<in> fst ` set d. pat p} \<and>
         mset (sorted_glob d pat) = mset (glob d pat) \<and>
         sorted_wrt (\<lambda>p q. p = q \<or> (p, q) \<in> lexord {(a, b). (of_char a :: nat) < of_char b})
           (sorted_glob d pat) \<and>
         (\<forall>sf idx a. open_dataset sf d pat = Inr (idx, a) \<longrightarrow>
            files idx = sorted_glob d pat \<and>
            (\<forall>t z. t < length (files idx) \<and> t < N_t idx \<and> z < N_z idx \<longrightarrow>
               compute_at d (files idx) a [int t, int z] = read_page d (sorted_glob d pat ! t) z))"
proof -
  have c2: "set (sorted_glob d pat) = {p \<in> fst ` set d. pat p}"
    by (rule set_sorted_glob)
  have c3: "mset (sorted_glob d pat) = mset (glob d pat)"
    unfolding sorted_glob_def by simp
  have "sorted (sorted_glob d pat)" unfolding sorted_glob_def by simp
  then have c4: "sorted_wrt (\<lambda>p q. p = q \<or> (p, q) \<in> lexord {(a, b). (of_char a :: nat) < of_char b})
      (sorted_glob d pat)"
    by (rule sorted_lexord)
  have c5: "files idx = sorted_glob d pat \<and>
            (\<forall>t z. t < length (files idx) \<and> t < N_t idx \<and> z < N_z idx \<longrightarrow>
               compute_at d (files idx) a [int t, int z] = read_page d (sorted_glob d pat ! t) z)"
    if op: "open_dataset sf d pat = Inr (idx, a)" for sf idx a
  proof -
    have f: "files idx = sorted_glob d pat"
      using scan_files open_dataset_Inr(1) [OF op] by blast
    have "\<forall>t z. t < length (files idx) \<and> t < N_t idx \<and> z < N_z idx \<longrightarrow>
            compute_at d (files idx) a [int t, int z] = read_page d (files idx ! t) z"
      using compute_at_ims_read_page [OF op] by blast
    then show ?thesis using f by simp
  qed
  show ?thesis
    using c2 c3 c4 c5 by (intro conjI allI impI) blast+
qed

theorem frame_locator_order_witness:
  "open_dataset first_matched scenario_disk file_pattern = Inr (scenario_index, scenario_ims) \<and>
   3 < length (files scenario_index) \<and> 3 < N_t scenario_index \<and> 2 < N_z scenario_index \<and>
   files scenario_index = sorted_glob scenario_disk file_pattern \<and>
   sorted_glob scenario_disk file_pattern =
     [''data/large_3d_dataset_tp000.tif'', ''data/large_3d_dataset_tp001.tif'',
      ''data/large_3d_dataset_tp002.tif'', ''data/large_3d_dataset_tp003.tif'',
      ''data/large_3d_dataset_tp004.tif''] \<and>
   compute_at scenario_disk (files scenario_index) scenario_ims [int 3, int 2]
     = read_page scenario_disk (sorted_glob scenario_disk file_pattern ! 3) 2"
proof -
  have fs: "sorted_glob scenario_disk file_pattern =
     [''data/large_3d_dataset_tp000.tif'', ''data/large_3d_dataset_tp001.tif'',
      ''data/large_3d_dataset_tp002.tif'', ''data/large_3d_dataset_tp003.tif'',
      ''data/large_3d_dataset_tp004.tif'']"
    by code_simp
  have b: "3 < length (files scenario_index) \<and> 3 < N_t scenario_index \<and> 2 < N_z scenario_index"
    by code_simp
  note inst = frame_locator_order [of scenario_disk file_pattern]
  have srt: "files scenario_index = sorted_glob scenario_disk file_pattern"
    using inst scenario_open by blast
  have rd: "compute_at scenario_disk (files scenario_index) scenario_ims [int 3, int 2]
     = read_page scenario_disk (sorted_glob scenario_disk file_pattern ! 3) 2"
    using inst scenario_open b by blast
  show ?thesis
    using scenario_open b srt fs rd by (intro conjI) blast+
qed

subsection \<open>Claims about the lazy volume\<close>

text \<open>
  Claim C1, amended. For \<open>(t, z)\<close> within the bounds of a built lazy volume such that the
  sorted list has a \<open>t\<close>-th file and that file holds a page \<open>z\<close>, computing the plane at
  \<open>(t, z)\<close> gives that page, and its log is the one read of that one page of that one
  file: no other page, no whole file, no other file. The two conditions do not follow
  from the bounds, which the scan takes from the one file it opens. With a \<open>t\<close>-th file
  alone, the compute is still the direct read of page \<open>z\<close> of that file, in result and in
  what it reads, and the file is on disk.
\<close>

theorem lazy_plane_is_one_page_read:
  fixes d :: "'a::linorder disk"
  assumes "open_dataset sf d pat = Inr (idx, a)"
    and "t < N_t idx" and "z < N_z idx"
    and "t < length (files idx)"
  shows "compute_at d (files idx) a [int t, int z] = read_page d (files idx ! t) z \<and>
         (\<exists>tf. map_of d (files idx ! t) = Some tf \<and>
            (z < length (pages tf) \<longrightarrow>
               compute_at d (files idx) a [int t, int z]
                 = (Inr (pages tf ! z), [Read_page (files idx ! t) z])))"
proof -
  have eq: "compute_at d (files idx) a [int t, int z] = read_page d (files idx ! t) z"
    by (rule compute_at_ims_read_page [OF assms])
  have "files idx ! t \<in> set (files idx)" using assms(4) by simp
  then have "files idx ! t \<in> fst ` set d"
    unfolding scan_files [OF open_dataset_Inr(1) [OF assms(1)]] set_sorted_glob by simp
  then obtain tf where tf: "map_of d (files idx ! t) = Some tf"
    by (metis domD dom_map_of_conv_image_fst)
  have "z < length (pages tf) \<longrightarrow>
          compute_at d (files idx) a [int t, int z] = (Inr (pages tf ! z), [Read_page (files idx ! t) z])"
    unfolding eq using read_page_Some [OF tf] by blast
  with eq tf show ?thesis by blast
qed

theorem lazy_plane_is_one_page_read_witness:
  "open_dataset first_matched scenario_disk file_pattern = Inr (scenario_index, scenario_ims) \<and>
   2 < N_t scenario_index \<and> 1 < N_z scenario_index \<and> 2 < length (files scenario_index) \<and>
   compute_at scenario_disk (files scenario_index) scenario_ims [int 2, int 1]
     = read_page scenario_disk (files scenario_index ! 2) 1 \<and>
   compute_at scenario_disk (files scenario_index) scenario_ims [int 2, int 1]
     = (Inr (scenario_plane 10 10 2 1), [Read_page ''data/large_3d_dataset_tp002.tif'' 1])"
proof -
  have b: "2 < N_t scenario_index" "1 < N_z scenario_index" "2 < length (files scenario_index)"
    by code_simp+
  note inst = lazy_plane_is_one_page_read [OF scenario_open b]
  have eq: "compute_at scenario_disk (files scenario_index) scenario_ims [int 2, int 1]
     = read_page scenario_disk (files scenario_index ! 2) 1"
    using inst by blast
  have rd: "read_page scenario_disk (files scenario_index ! 2) 1
     = (Inr (scenario_plane 10 10 2 1), [Read_page ''data/large_3d_dataset_tp002.tif'' 1])"
    by code_simp
  show ?thesis
    using scenario_open b eq rd by (intro conjI) (simp_all only:)
qed

text \<open>
  Counterexample to claim C1 as stated. Of two files the second holds one page: the lazy
  volume has the bounds two by three, \<open>(1, 2)\<close> lies within them, and computing that plane
  raises \<open>IndexError\<close> and reads nothing. A single file with a series of four axes: the
  bounds are two by three again, \<open>(1, 0)\<close> lies within them, and there is no second file.
\<close>

theorem missing_plane_counterexample:
  "open_dataset first_matched short_disk file_pattern = Inr (short_index, short_ims) \<and>
   1 < N_t short_index \<and> 2 < N_z short_index \<and>
   files short_index ! 1 = ''data/large_3d_dataset_tp001.tif'' \<and>
   map_of short_disk ''data/large_3d_dataset_tp001.tif'' = Some (scenario_tiff 1 10 10 1) \<and>
   length (pages (scenario_tiff 1 10 10 1)) = 1 \<and>
   compute_at short_disk (files short_index) short_ims [1, 2] = (Inl IndexError, []) \<and>
   open_dataset first_matched series_disk file_pattern = Inr (series_index, short_ims) \<and>
   1 < N_t series_index \<and> 0 < N_z series_index \<and>
   length (files series_index) = 1 \<and>
   compute_at series_disk (files series_index) short_ims [1, 0] = (Inl IndexError, [])"
  by code_simp

lemma all_plane_stacksD:
  assumes "all_plane_stacks d fs Z Y X" and "p \<in> set fs"
  obtains tf where "map_of d p = Some tf" and "plane_stack Z Y X tf"
  using assms by (auto simp: all_plane_stacks_def list_all_iff split: option.splits)

lemma plane_stack_page:
  assumes "plane_stack Z Y X tf" and "z < Z"
  shows "z < length (pages tf)" and "length (pages tf ! z) = Y"
    and "list_all (\<lambda>r. length r = X) (pages tf ! z)"
  using assms by (auto simp: plane_stack_def list_all_length)

lemma open_dataset_sequence:
  assumes "2 \<le> length (glob d pat)"
    and "map_of d (sf (glob d pat)) = Some tf"
    and "tiff_shape tf = [z, y, x]"
    and "0 < z"
  shows "open_dataset sf d pat =
         Inr (\<lparr>files = sorted_glob d pat, N_t = length (glob d pat), N_z = z, N_x = y, N_y = x,
               dtype = tiff_dtype tf\<rparr>,
              \<lparr>da_shape = [length (glob d pat), z, y, x], da_dtype = tiff_dtype tf,
               blocks = ims_blocks (length (glob d pat)) z\<rparr>)"
proof -
  let ?idx = "\<lparr>files = sorted_glob d pat, N_t = length (glob d pat), N_z = z, N_x = y, N_y = x,
               dtype = tiff_dtype tf\<rparr>"
  have s: "scan sf d pat = Inr ?idx"
    by (rule scan_sequence [where sf = sf, OF assms(1-3)])
  have "0 < length (glob d pat)" using assms(1) by linarith
  then have "0 < N_t ?idx" and "0 < N_z ?idx" using assms(4) by simp_all
  then have "ims ?idx = Inr \<lparr>da_shape = [N_t ?idx, N_z ?idx, N_x ?idx, N_y ?idx],
       da_dtype = dtype ?idx, blocks = ims_blocks (N_t ?idx) (N_z ?idx)\<rparr>"
    by (rule ims_built)
  then show ?thesis
    unfolding open_dataset_def s by simp
qed

lemma lazy_volume_planes:
  fixes d :: "'a::linorder disk"
  assumes op: "open_dataset sf d pat = Inr (idx, a)"
    and fs: "files idx = sort (glob d pat)"
    and nt: "N_t idx = length (glob d pat)" and nz: "N_z idx = Z"
    and st: "all_plane_stacks d (glob d pat) Z Y X"
    and t: "t < length (glob d pat)" and z: "z < Z"
  shows "\<exists>p. compute_at d (files idx) a [int t, int z] = (Inr p, [Read_page (files idx ! t) z]) \<and>
             length p = Y \<and> list_all (\<lambda>r. length r = X) p"
proof -
  have len: "t < length (files idx)" unfolding fs using t by simp
  have "files idx ! t \<in> set (files idx)" using len by (rule nth_mem)
  then have "files idx ! t \<in> set (glob d pat)" unfolding fs by simp
  then obtain tg where tg: "map_of d (files idx ! t) = Some tg" and sg: "plane_stack Z Y X tg"
    using all_plane_stacksD [OF st] by blast
  have tb: "t < N_t idx" and zb: "z < N_z idx" using t z nt nz by simp_all
  have "compute_at d (files idx) a [int t, int z] = read_page d (files idx ! t) z"
    by (rule compute_at_ims_read_page [OF op tb zb len])
  also have "\<dots> = (Inr (pages tg ! z), [Read_page (files idx ! t) z])"
    by (rule read_page_Some [OF tg plane_stack_page(1) [OF sg z]])
  finally have c: "compute_at d (files idx) a [int t, int z]
      = (Inr (pages tg ! z), [Read_page (files idx ! t) z])" .
  show ?thesis
    using c plane_stack_page(2,3) [OF sg z] by (intro exI [of _ "pages tg ! z"] conjI)
qed

text \<open>
  The volume of two or more files. When every matched file is a stack of \<open>Z \<ge> 1\<close> planes
  of \<open>Y\<close> by \<open>X\<close>, the scan and the build succeed and the lazy volume has shape
  \<open>(T, Z, Y, X)\<close>, \<open>T\<close> the number of files; computing the plane at any \<open>(t, z)\<close> in bounds
  yields a \<open>Y\<close> by \<open>X\<close> plane and reads exactly page \<open>z\<close> of the \<open>t\<close>-th file. The five
  files of three planes of ten by ten give shape \<open>(5, 3, 10, 10)\<close>, and the plane at
  \<open>(t, z) = (2, 1)\<close> is one page read of the third file.
\<close>

lemma lazy_volume_shape:
  fixes d :: "'a::linorder disk"
  assumes "2 \<le> length (glob d pat)"
    and "all_plane_stacks d (glob d pat) Z Y X"
    and "0 < Z"
    and "sf (glob d pat) \<in> set (glob d pat)"
  shows "\<exists>idx a. open_dataset sf d pat = Inr (idx, a) \<and>
           da_shape a = [length (glob d pat), Z, Y, X] \<and>
           (\<forall>t z. t < length (glob d pat) \<and> z < Z \<longrightarrow>
              (\<exists>p. compute_at d (files idx) a [int t, int z]
                      = (Inr p, [Read_page (files idx ! t) z]) \<and>
                   length p = Y \<and> list_all (\<lambda>r. length r = X) p))"
proof -
  obtain tf where tf: "map_of d (sf (glob d pat)) = Some tf" and st: "plane_stack Z Y X tf"
    using all_plane_stacksD [OF assms(2,4)] by blast
  have sh: "tiff_shape tf = [Z, Y, X]" using st by (simp add: plane_stack_def)
  define idx where "idx = \<lparr>files = sorted_glob d pat, N_t = length (glob d pat), N_z = Z,
      N_x = Y, N_y = X, dtype = tiff_dtype tf\<rparr>"
  define a where "a = \<lparr>da_shape = [length (glob d pat), Z, Y, X], da_dtype = tiff_dtype tf,
      blocks = ims_blocks (length (glob d pat)) Z\<rparr>"
  have op: "open_dataset sf d pat = Inr (idx, a)"
    unfolding idx_def a_def
    by (rule open_dataset_sequence [where sf = sf, OF assms(1) tf sh assms(3)])
  have fs: "files idx = sort (glob d pat)" by (simp add: idx_def sorted_glob_def)
  have nt: "N_t idx = length (glob d pat)" and nz: "N_z idx = Z" by (simp_all add: idx_def)
  have shape: "da_shape a = [length (glob d pat), Z, Y, X]" by (simp add: a_def)
  have planes: "\<forall>t z. t < length (glob d pat) \<and> z < Z \<longrightarrow>
      (\<exists>p. compute_at d (files idx) a [int t, int z] = (Inr p, [Read_page (files idx ! t) z]) \<and>
           length p = Y \<and> list_all (\<lambda>r. length r = X) p)"
    using lazy_volume_planes [OF op fs nt nz assms(2)] by blast
  show ?thesis
    using op shape planes by (intro exI [of _ idx] exI [of _ a] conjI)
qed

lemma lazy_volume_shape_scenario:
  "2 \<le> length (glob scenario_disk file_pattern) \<and>
   all_plane_stacks scenario_disk (glob scenario_disk file_pattern) 3 10 10 \<and>
   first_matched (glob scenario_disk file_pattern) \<in> set (glob scenario_disk file_pattern) \<and>
   open_dataset first_matched scenario_disk file_pattern = Inr (scenario_index, scenario_ims) \<and>
   da_shape scenario_ims = [5, 3, 10, 10] \<and>
   compute_at scenario_disk (files scenario_index) scenario_ims [int 2, int 1]
     = (Inr (scenario_plane 10 10 2 1), [Read_page ''data/large_3d_dataset_tp002.tif'' 1])"
proof -
  have h1: "2 \<le> length (glob scenario_disk file_pattern)" by code_simp
  have h2: "all_plane_stacks scenario_disk (glob scenario_disk file_pattern) 3 10 10" by code_simp
  have h3: "(0::nat) < 3" by simp
  have h4: "first_matched (glob scenario_disk file_pattern) \<in> set (glob scenario_disk file_pattern)"
    by code_simp
  have len: "length (glob scenario_disk file_pattern) = 5" by code_simp
  obtain idx a where op: "open_dataset first_matched scenario_disk file_pattern = Inr (idx, a)"
    and sh: "da_shape a = [length (glob scenario_disk file_pattern), 3, 10, 10]"
    and pl: "\<forall>t z. t < length (glob scenario_disk file_pattern) \<and> z < 3 \<longrightarrow>
              (\<exists>p. compute_at scenario_disk (files idx) a [int t, int z]
                      = (Inr p, [Read_page (files idx ! t) z]) \<and>
                   length p = 10 \<and> list_all (\<lambda>r. length r = 10) p)"
    using lazy_volume_shape [where sf = first_matched, OF h1 h2 h3 h4] by blast
  have ids: "idx = scenario_index" "a = scenario_ims"
    using op scenario_open by simp_all
  have shape: "da_shape scenario_ims = [5, 3, 10, 10]"
    using sh unfolding ids len .
  have "(2::nat) < 5 \<and> (1::nat) < 3" by simp
  then obtain p where c: "compute_at scenario_disk (files scenario_index) scenario_ims [int 2, int 1]
                      = (Inr p, [Read_page (files scenario_index ! 2) 1])"
    using pl unfolding ids len by blast
  have v: "compute_at scenario_disk (files scenario_index) scenario_ims [int 2, int 1]
     = (Inr (scenario_plane 10 10 2 1), [Read_page ''data/large_3d_dataset_tp002.tif'' 1])"
    by code_simp
  show ?thesis
    using h1 h2 h4 scenario_open shape v by (intro conjI)
qed

text \<open>
  Claim C2 at \<open>T = 1\<close>. One matched file of three planes of ten by ten is a stack as the
  claim describes, for which it gives the shape \<open>(1, 3, 10, 10)\<close>. The code builds no
  volume: tifffile opens a single match as a plain file, the store has the three axes of
  that file, and the scan cell raises \<open>ValueError\<close> on unpacking four values from them.
  The sorted file list and \<open>load_2d\<close> would serve the one file: the plane at \<open>(0, 1)\<close> of
  the volume of shape \<open>(1, 3, 10, 10)\<close> over it computes as one page read.
\<close>

theorem single_file_scan_fails:
  "glob single_disk file_pattern = [''data/large_3d_dataset_tp000.tif''] \<and>
   all_plane_stacks single_disk (glob single_disk file_pattern) 3 10 10 \<and>
   scan first_matched single_disk file_pattern = Inl (ValueError Unpack_count) \<and>
   open_dataset first_matched single_disk file_pattern = Inl (ValueError Unpack_count) \<and>
   sorted_glob single_disk file_pattern = [''data/large_3d_dataset_tp000.tif''] \<and>
   ims \<lparr>files = sorted_glob single_disk file_pattern, N_t = 1, N_z = 3, N_x = 10, N_y = 10,
        dtype = ''uint16''\<rparr>
     = Inr \<lparr>da_shape = [1, 3, 10, 10], da_dtype = ''uint16'', blocks = ims_blocks 1 3\<rparr> \<and>
   compute_at single_disk (sorted_glob single_disk file_pattern)
       \<lparr>da_shape = [1, 3, 10, 10], da_dtype = ''uint16'', blocks = ims_blocks 1 3\<rparr> [0, 1]
     = (Inr (scenario_plane 10 10 0 1), [Read_page ''data/large_3d_dataset_tp000.tif'' 1])"
  by code_simp

text \<open>
  Claim C7, amended. The scan learns the plane shape and the element type from the one
  file the sequence reader opens and compares no other file with it. With two or more
  matched files it succeeds whenever that file reports three axes, whatever the other
  files hold; the lazy volume is built with that shape and element type, and each plane
  is later returned as the page read finds it on disk.
\<close>

theorem scan_compares_no_files:
  fixes d :: "'a::linorder disk"
  assumes "2 \<le> length (glob d pat)"
    and "map_of d (sf (glob d pat)) = Some tf"
    and "tiff_shape tf = [z, y, x]"
    and "0 < z"
  shows "\<exists>idx a. scan sf d pat = Inr idx \<and> open_dataset sf d pat = Inr (idx, a) \<and>
           files idx = sort (glob d pat) \<and>
           [N_t idx, N_z idx, N_x idx, N_y idx] = [length (glob d pat), z, y, x] \<and>
           dtype idx = tiff_dtype tf \<and>
           da_shape a = [length (glob d pat), z, y, x] \<and> da_dtype a = tiff_dtype tf \<and>
           (\<forall>t k. t < length (glob d pat) \<and> k < z \<longrightarrow>
              compute_at d (files idx) a [int t, int k] = read_page d (files idx ! t) k)"
proof -
  define idx where "idx = \<lparr>files = sorted_glob d pat, N_t = length (glob d pat), N_z = z,
      N_x = y, N_y = x, dtype = tiff_dtype tf\<rparr>"
  define a where "a = \<lparr>da_shape = [length (glob d pat), z, y, x], da_dtype = tiff_dtype tf,
      blocks = ims_blocks (length (glob d pat)) z\<rparr>"
  have op: "open_dataset sf d pat = Inr (idx, a)"
    unfolding idx_def a_def
    by (rule open_dataset_sequence [where sf = sf, OF assms])
  have sc: "scan sf d pat = Inr idx"
    by (rule open_dataset_Inr(1) [OF op])
  have fs: "files idx = sort (glob d pat)" by (simp add: idx_def sorted_glob_def)
  have ns: "[N_t idx, N_z idx, N_x idx, N_y idx] = [length (glob d pat), z, y, x]"
    by (simp add: idx_def)
  have dt: "dtype idx = tiff_dtype tf" by (simp add: idx_def)
  have sh: "da_shape a = [length (glob d pat), z, y, x]" and adt: "da_dtype a = tiff_dtype tf"
    by (simp_all add: a_def)
  have rd: "compute_at d (files idx) a [int t, int k] = read_page d (files idx ! t) k"
    if "t < length (glob d pat)" and "k < z" for t k
  proof -
    have "t < N_t idx" and "k < N_z idx" and "t < length (files idx)"
      using that by (simp_all add: idx_def sorted_glob_def)
    then show ?thesis by (rule compute_at_ims_read_page [OF op])
  qed
  then have rds: "\<forall>t k. t < length (glob d pat) \<and> k < z \<longrightarrow>
              compute_at d (files idx) a [int t, int k] = read_page d (files idx ! t) k"
    by blast
  show ?thesis
    using sc op fs ns dt sh adt rds by (intro exI [of _ idx] exI [of _ a] conjI)
qed

lemma mixed_open:
  "open_dataset first_matched mixed_disk file_pattern = Inr (scenario_index, scenario_ims)"
  by code_simp

theorem scan_compares_no_files_witness:
  "2 \<le> length (glob mixed_disk file_pattern) \<and>
   map_of mixed_disk (first_matched (glob mixed_disk file_pattern))
     = Some (scenario_tiff 3 10 10 0) \<and>
   tiff_shape (scenario_tiff 3 10 10 0) = [3, 10, 10] \<and>
   scan first_matched mixed_disk file_pattern = Inr scenario_index \<and>
   open_dataset first_matched mixed_disk file_pattern = Inr (scenario_index, scenario_ims) \<and>
   da_shape scenario_ims = [5, 3, 10, 10] \<and>
   compute_at mixed_disk (files scenario_index) scenario_ims [int 2, int 0]
     = read_page mixed_disk (files scenario_index ! 2) 0"
proof -
  have h1: "2 \<le> length (glob mixed_disk file_pattern)" by code_simp
  have h2: "map_of mixed_disk (first_matched (glob mixed_disk file_pattern))
     = Some (scenario_tiff 3 10 10 0)" by code_simp
  have h3: "tiff_shape (scenario_tiff 3 10 10 0) = [3, 10, 10]" by code_simp
  have h4: "(0::nat) < 3" by simp
  have len: "length (glob mixed_disk file_pattern) = 5" by code_simp
  obtain idx a where sc: "scan first_matched mixed_disk file_pattern = Inr idx"
    and op: "open_dataset first_matched mixed_disk file_pattern = Inr (idx, a)"
    and sh: "da_shape a = [length (glob mixed_disk file_pattern), 3, 10, 10]"
    and rd: "\<forall>t k. t < length (glob mixed_disk file_pattern) \<and> k < 3 \<longrightarrow>
              compute_at mixed_disk (files idx) a [int t, int k] = read_page mixed_disk (files idx ! t) k"
    using scan_compares_no_files [where sf = first_matched, OF h1 h2 h3 h4] by blast
  have ids: "idx = scenario_index" "a = scenario_ims"
    using op mixed_open by simp_all
  have sc': "scan first_matched mixed_disk file_pattern = Inr scenario_index"
    using sc unfolding ids .
  have shape: "da_shape scenario_ims = [5, 3, 10, 10]"
    using sh unfolding ids len .
  have "(2::nat) < 5 \<and> (0::nat) < 3" by simp
  then have c: "compute_at mixed_disk (files scenario_index) scenario_ims [int 2, int 0]
     = read_page mixed_disk (files scenario_index ! 2) 0"
    using rd unfolding ids len by blast
  show ?thesis
    using h1 h2 h3 sc' mixed_open shape c by (intro conjI)
qed

text \<open>
  Counterexample to claim C7 as stated, five files of which the third has planes of ten by
  twelve:
  the scan and the build succeed with shape \<open>(5, 3, 10, 10)\<close>, and the plane at \<open>(2, 0)\<close> is
  computed without complaint as the ten by twelve plane on disk.
\<close>

theorem mismatch_not_detected_counterexample:
  "map_of mixed_disk ''data/large_3d_dataset_tp002.tif'' = Some (scenario_tiff 3 10 12 2) \<and>
   map_of mixed_disk ''data/large_3d_dataset_tp000.tif'' = Some (scenario_tiff 3 10 10 0) \<and>
   tiff_shape (scenario_tiff 3 10 12 2) \<noteq> tiff_shape (scenario_tiff 3 10 10 0) \<and>
   length (glob mixed_disk file_pattern) = 5 \<and>
   scan first_matched mixed_disk file_pattern = Inr scenario_index \<and>
   open_dataset first_matched mixed_disk file_pattern = Inr (scenario_index, scenario_ims) \<and>
   da_shape scenario_ims = [5, 3, 10, 10] \<and>
   compute_at mixed_disk (files scenario_index) scenario_ims [2, 0]
     = (Inr (scenario_plane 10 12 2 0), [Read_page ''data/large_3d_dataset_tp002.tif'' 0])"
  by code_simp

subsection \<open>The viewer's index tuple\<close>

lemma slider_names: "map fst (sliders a) = map dim_name [0..<length (scroll_shape a)]"
proof -
  have "map fst (sliders a) = map dim_name (map fst (enumerate 0 (scroll_shape a)))"
    unfolding sliders_def by (simp add: case_prod_unfold comp_def del: map_fst_enumerate)
  also have "map fst (enumerate 0 (scroll_shape a)) = [0..<length (scroll_shape a)]"
    by simp
  finally show ?thesis .
qed

lemma ten_names_sorted: "sorted (map dim_name [0..<10])"
  by code_simp

lemma ten_names_distinct: "distinct (map dim_name [0..<10])"
  by code_simp

lemma names_sorted:
  assumes "n \<le> 10"
  shows "sorted (map dim_name [0..<n])" and "distinct (map dim_name [0..<n])"
proof -
  have "[0..<n] = take n [0..<10]" using assms by simp
  then have eq: "map dim_name [0..<n] = take n (map dim_name [0..<10])"
    by (simp only: take_map)
  show "sorted (map dim_name [0..<n])"
    unfolding eq using ten_names_sorted by (rule sorted_wrt_take)
  show "distinct (map dim_name [0..<n])"
    unfolding eq using ten_names_distinct by (rule distinct_take)
qed

lemma sorted_keys:
  assumes "n \<le> 10" and "distinct ks" and "set ks = set (map dim_name [0..<n])"
  shows "sort ks = map dim_name [0..<n]"
proof (rule sorted_distinct_set_unique)
  show "sorted (sort ks)" by simp
  show "distinct (sort ks)" using assms(2) by simp
  show "sorted (map dim_name [0..<n])" by (rule names_sorted(1) [OF assms(1)])
  show "distinct (map dim_name [0..<n])" by (rule names_sorted(2) [OF assms(1)])
  show "set (sort ks) = set (map dim_name [0..<n])" using assms(3) by simp
qed

lemma pos_by_axis:
  assumes "length (scroll_shape a) \<le> 10"
    and "distinct (map fst kwargs)"
    and "set (map fst kwargs) = set (map fst (sliders a))"
  shows "pos kwargs = map (\<lambda>k. the (map_of kwargs (dim_name k))) [0..<length (scroll_shape a)]"
proof -
  have "sort (map fst kwargs) = map dim_name [0..<length (scroll_shape a)]"
    using assms(3) unfolding slider_names by (rule sorted_keys [OF assms(1,2)])
  then show ?thesis by (simp add: pos_def comp_def)
qed

text \<open>
  Claim C10. \<open>view_image\<close> builds the index tuple from the slider names sorted as strings.
  For an array with at most ten leading axes, called with one value per slider, entry \<open>k\<close>
  of the tuple is the value of the slider of axis \<open>k\<close>. The bound is needed: with eleven
  axes \<open>'dim 10'\<close> sorts before \<open>'dim 2'\<close>, and the value of axis 10 lands in entry 2.
\<close>

theorem pos_follows_axes_up_to_ten:
  assumes "length (scroll_shape a) \<le> 10"
    and "distinct (map fst kwargs)"
    and "set (map fst kwargs) = set (map fst (sliders a))"
  shows "length (pos kwargs) = length (scroll_shape a) \<and>
         (\<forall>k. k < length (scroll_shape a) \<longrightarrow> pos kwargs ! k = the (map_of kwargs (dim_name k))) \<and>
         pos (map (\<lambda>k. (dim_name k, int k)) [0..<11]) = [0, 1, 10, 2, 3, 4, 5, 6, 7, 8, 9]"
proof -
  have p: "pos kwargs = map (\<lambda>k. the (map_of kwargs (dim_name k))) [0..<length (scroll_shape a)]"
    by (rule pos_by_axis [OF assms])
  have c1: "length (pos kwargs) = length (scroll_shape a)" unfolding p by simp
  have c2: "\<forall>k. k < length (scroll_shape a) \<longrightarrow> pos kwargs ! k = the (map_of kwargs (dim_name k))"
    unfolding p by simp
  have c3: "pos (map (\<lambda>k. (dim_name k, int k)) [0..<11]) = [0, 1, 10, 2, 3, 4, 5, 6, 7, 8, 9]"
    by code_simp
  show ?thesis using c1 c2 c3 by (intro conjI)
qed

theorem pos_follows_axes_up_to_ten_witness:
  "length (scroll_shape scenario_ims) \<le> 10 \<and>
   distinct (map fst [(''dim 1'', 1), (''dim 0'', 2 :: int)]) \<and>
   set (map fst [(''dim 1'', 1), (''dim 0'', 2 :: int)]) = set (map fst (sliders scenario_ims)) \<and>
   pos [(''dim 1'', 1), (''dim 0'', 2)] = [2, 1] \<and>
   pos [(''dim 1'', 1), (''dim 0'', 2)] ! 0 = the (map_of [(''dim 1'', 1), (''dim 0'', 2)] (dim_name 0))"
proof -
  have h1: "length (scroll_shape scenario_ims) \<le> 10" by code_simp
  have h2: "distinct (map fst [(''dim 1'', 1), (''dim 0'', 2 :: int)])" by code_simp
  have h3: "set (map fst [(''dim 1'', 1), (''dim 0'', 2 :: int)]) = set (map fst (sliders scenario_ims))"
    by code_simp
  have n: "0 < length (scroll_shape scenario_ims)" by code_simp
  have v: "pos [(''dim 1'', 1), (''dim 0'', 2)] = [2, 1]" by code_simp
  have k: "pos [(''dim 1'', 1), (''dim 0'', 2)] ! 0 = the (map_of [(''dim 1'', 1), (''dim 0'', 2)] (dim_name 0))"
    using pos_follows_axes_up_to_ten [OF h1 h2 h3] n by blast
  show ?thesis using h1 h2 h3 v k by (intro conjI)
qed

subsection \<open>Indexing the blocks\<close>

lemma py_index_accept:
  assumes "- int (length xs) \<le> v" and "v < int (length xs)"
  shows "py_index xs v = Inr (xs ! wrap v (length xs))" and "wrap v (length xs) < length xs"
  using assms by (auto simp: py_index_def wrap_def)

lemma py_index_reject:
  assumes "v < - int (length xs) \<or> int (length xs) \<le> v"
  shows "py_index xs v = Inl IndexError"
  using assms by (auto simp: py_index_def)

lemma getitem_accept:
  assumes "conforms ss a" and "list_all2 (\<lambda>v s. - int s \<le> v \<and> v < int s) vs ss"
  shows "\<exists>x. getitem a vs = Inr (Leaf x) \<and> block_at a (map2 wrap vs ss) = Leaf x"
  using assms
proof (induction ss arbitrary: a vs)
  case Nil
  then obtain x where "a = Leaf x" by (cases a) simp_all
  with Nil show ?case by simp
next
  case (Cons s ss)
  from Cons.prems(1) obtain xs where a: "a = Node xs" and len: "length xs = s"
    and sub: "list_all (conforms ss) xs"
    by (cases a) simp_all
  from Cons.prems(2) obtain v vs' where vs: "vs = v # vs'"
    and v: "- int s \<le> v" "v < int s"
    and rest: "list_all2 (\<lambda>v s. - int s \<le> v \<and> v < int s) vs' ss"
    by (cases vs) auto
  have pi: "py_index xs v = Inr (xs ! wrap v s)" and w: "wrap v s < length xs"
    using py_index_accept [of xs v] v len by simp_all
  have "conforms ss (xs ! wrap v s)"
    using sub w by (simp add: list_all_length)
  from Cons.IH [OF this rest] obtain x where
    "getitem (xs ! wrap v s) vs' = Inr (Leaf x)"
    "block_at (xs ! wrap v s) (map2 wrap vs' ss) = Leaf x"
    by blast
  then show ?case by (simp add: a vs pi)
qed

lemma getitem_reject:
  assumes "conforms ss a" and "length vs = length ss"
    and "k < length ss" and "vs ! k < - int (ss ! k) \<or> int (ss ! k) \<le> vs ! k"
  shows "getitem a vs = Inl IndexError"
  using assms
proof (induction ss arbitrary: a vs k)
  case Nil
  then show ?case by simp
next
  case (Cons s ss)
  from Cons.prems(1) obtain xs where a: "a = Node xs" and len: "length xs = s"
    and sub: "list_all (conforms ss) xs"
    by (cases a) simp_all
  from Cons.prems(2) obtain v vs' where vs: "vs = v # vs'" and l: "length vs' = length ss"
    by (cases vs) auto
  show ?case
  proof (cases "v < - int s \<or> int s \<le> v")
    case True
    then show ?thesis using py_index_reject [of v xs] by (simp add: a vs len)
  next
    case False
    then have pi: "py_index xs v = Inr (xs ! wrap v s)" and w: "wrap v s < length xs"
      using py_index_accept [of xs v] len by simp_all
    have c: "conforms ss (xs ! wrap v s)"
      using sub w by (simp add: list_all_length)
    from False Cons.prems(3,4) obtain k' where k: "k = Suc k'"
      by (cases k) (auto simp: vs)
    have "getitem (xs ! wrap v s) vs' = Inl IndexError"
      using Cons.IH [OF c l, of k'] Cons.prems(3,4) by (simp add: k vs)
    then show ?thesis by (simp add: a vs pi)
  qed
qed

text \<open>Every lazy volume the notebook builds fits its leading axes.\<close>

lemma conforms_ims_blocks: "conforms [nt, nz] (ims_blocks nt nz)"
  by (simp add: ims_blocks_def list_all_iff)

lemma conforms_built:
  assumes "open_dataset sf d pat = Inr (idx, a)"
  shows "conforms (scroll_shape a) (blocks a)"
  using open_dataset_blocks(3,4) [OF assms]
  by (simp add: scroll_shape_def conforms_ims_blocks)

lemma T_entry:
  assumes "list_all (\<lambda>r. length r = w) p" and "p \<noteq> []"
  shows "length (T p) = w"
    and "i < w \<Longrightarrow> length (T p ! i) = length p"
    and "i < w \<Longrightarrow> j < length p \<Longrightarrow> T p ! i ! j = p ! j ! i"
proof -
  obtain r rs where p: "p = r # rs" using assms(2) by (cases p) auto
  have w: "length r = w" using assms(1) by (simp add: p)
  have t: "T p = map (\<lambda>i. map (\<lambda>row. row ! i) p) [0..<w]"
    by (simp add: T_def p w)
  show "length (T p) = w" by (simp add: t)
  show "i < w \<Longrightarrow> length (T p ! i) = length p" by (simp add: t)
  show "i < w \<Longrightarrow> j < length p \<Longrightarrow> T p ! i ! j = p ! j ! i" by (simp add: t)
qed

lemma view_image_Inr:
  assumes "view_image d fs a kwargs = (Inr img, log)"
  shows "\<exists>task p. getitem (blocks a) (pos kwargs) = Inr (Leaf task) \<and>
           compute d fs task = (Inr p, log) \<and> img = T p"
  using assms
  by (auto simp: view_image_def compute_at_def split: sum.splits prod.splits nd.splits)

lemma view_image_block:
  assumes "getitem (blocks a) (pos kwargs) = Inr (Leaf task)"
  shows "view_image d fs a kwargs =
         (case compute d fs task of (Inl e, log) \<Rightarrow> (Inl e, log) | (Inr p, log) \<Rightarrow> (Inr (T p), log))"
  using assms by (simp add: view_image_def compute_at_def)

lemma view_image_IndexError:
  assumes "getitem (blocks a) (pos kwargs) = Inl IndexError"
  shows "view_image d fs a kwargs = (Inl IndexError, [])"
  using assms by (simp add: view_image_def compute_at_def)

subsection \<open>Claims about the viewer\<close>

text \<open>
  Claim C9. Whenever \<open>view_image\<close> shows an image, the index tuple selected one block, and
  the image is the transpose of the plane computed from it: for a plane of rows of width
  \<open>w\<close> the image has \<open>w\<close> rows, each as long as the plane has rows, and its element at
  \<open>(i, j)\<close> is the plane's element at row \<open>j\<close>, column \<open>i\<close>.
\<close>

theorem view_image_shows_transpose:
  fixes d :: "'a::linorder disk"
  assumes "view_image d fs a kwargs = (Inr img, log)"
  shows "\<exists>task p. getitem (blocks a) (pos kwargs) = Inr (Leaf task) \<and>
           compute d fs task = (Inr p, log) \<and>
           (\<forall>w. p \<noteq> [] \<and> list_all (\<lambda>r. length r = w) p \<longrightarrow>
              length img = w \<and>
              (\<forall>i j. i < w \<and> j < length p \<longrightarrow>
                 length (img ! i) = length p \<and> img ! i ! j = p ! j ! i))"
proof -
  obtain task p where g: "getitem (blocks a) (pos kwargs) = Inr (Leaf task)"
    and c: "compute d fs task = (Inr p, log)" and i: "img = T p"
    using view_image_Inr [OF assms] by blast
  have "\<forall>w. p \<noteq> [] \<and> list_all (\<lambda>r. length r = w) p \<longrightarrow>
              length img = w \<and>
              (\<forall>i j. i < w \<and> j < length p \<longrightarrow>
                 length (img ! i) = length p \<and> img ! i ! j = p ! j ! i)"
    unfolding i using T_entry by blast
  with g c show ?thesis by blast
qed

theorem view_image_shows_transpose_witness:
  "view_image mixed_disk scenario_files scenario_ims [(''dim 0'', 2), (''dim 1'', 0)]
     = (Inr (T (scenario_plane 10 12 2 0)), [Read_page ''data/large_3d_dataset_tp002.tif'' 0]) \<and>
   scenario_plane 10 12 2 0 \<noteq> [] \<and>
   list_all (\<lambda>r. length r = 12) (scenario_plane 10 12 2 0) \<and>
   length (T (scenario_plane 10 12 2 0)) = 12 \<and>
   length (T (scenario_plane 10 12 2 0) ! 11) = 10 \<and>
   T (scenario_plane 10 12 2 0) ! 11 ! 3 = scenario_plane 10 12 2 0 ! 3 ! 11"
proof -
  have v: "view_image mixed_disk scenario_files scenario_ims [(''dim 0'', 2), (''dim 1'', 0)]
     = (Inr (T (scenario_plane 10 12 2 0)), [Read_page ''data/large_3d_dataset_tp002.tif'' 0])"
    by code_simp
  have ne: "scenario_plane 10 12 2 0 \<noteq> []" by code_simp
  have rect: "list_all (\<lambda>r. length r = 12) (scenario_plane 10 12 2 0)" by code_simp
  have len: "length (scenario_plane 10 12 2 0) = 10" by code_simp
  obtain task p where g: "getitem (blocks scenario_ims) (pos [(''dim 0'', 2), (''dim 1'', 0)]) = Inr (Leaf task)"
    and c: "compute mixed_disk scenario_files task
              = (Inr p, [Read_page ''data/large_3d_dataset_tp002.tif'' 0])"
    and t: "\<forall>w. p \<noteq> [] \<and> list_all (\<lambda>r. length r = w) p \<longrightarrow>
              length (T (scenario_plane 10 12 2 0)) = w \<and>
              (\<forall>i j. i < w \<and> j < length p \<longrightarrow>
                 length (T (scenario_plane 10 12 2 0) ! i) = length p \<and>
                 T (scenario_plane 10 12 2 0) ! i ! j = p ! j ! i)"
    using view_image_shows_transpose [OF v] by blast
  have g': "getitem (blocks scenario_ims) (pos [(''dim 0'', 2), (''dim 1'', 0)]) = Inr (Leaf (Load_2d 2 0))"
    by code_simp
  have c': "compute mixed_disk scenario_files (Load_2d 2 0)
              = (Inr (scenario_plane 10 12 2 0), [Read_page ''data/large_3d_dataset_tp002.tif'' 0])"
    by code_simp
  have task: "task = Load_2d 2 0" using g g' by simp
  have p: "p = scenario_plane 10 12 2 0" using c c' unfolding task by simp
  have e: "length (T (scenario_plane 10 12 2 0)) = 12 \<and>
              (\<forall>i j. i < 12 \<and> j < length (scenario_plane 10 12 2 0) \<longrightarrow>
                 length (T (scenario_plane 10 12 2 0) ! i) = length (scenario_plane 10 12 2 0) \<and>
                 T (scenario_plane 10 12 2 0) ! i ! j = scenario_plane 10 12 2 0 ! j ! i)"
    using t ne rect unfolding p by blast
  have b: "(11::nat) < 12 \<and> (3::nat) < length (scenario_plane 10 12 2 0)"
    unfolding len by simp
  have e1: "length (T (scenario_plane 10 12 2 0)) = 12" using e by blast
  have e2: "length (T (scenario_plane 10 12 2 0) ! 11) = 10" using e b len by metis
  have e3: "T (scenario_plane 10 12 2 0) ! 11 ! 3 = scenario_plane 10 12 2 0 ! 3 ! 11"
    using e b by blast
  show ?thesis using v ne rect e1 e2 e3 by (intro conjI)
qed

lemma slider_ranges: "map snd (sliders a) = map (\<lambda>s. (0, int s - 1)) (scroll_shape a)"
proof -
  have "map snd (sliders a) = map ((\<lambda>s. (0, int s - 1)) \<circ> snd) (enumerate 0 (scroll_shape a))"
    by (simp add: sliders_def case_prod_unfold comp_def)
  also have "\<dots> = map (\<lambda>s. (0, int s - 1)) (map snd (enumerate 0 (scroll_shape a)))"
    by (simp only: map_map)
  finally show ?thesis by simp
qed

lemma pos_slider_values:
  assumes "length (scroll_shape a) \<le> 10"
    and "distinct (map fst kwargs)"
    and "set (map fst kwargs) = set (map fst (sliders a))"
  shows "pos kwargs = map (slider_value kwargs) [0..<length (scroll_shape a)]"
  unfolding pos_by_axis [OF assms] slider_value_def ..

text \<open>
  \<open>view_image\<close> checks no value itself; the indexing of the array decides. Called with one
  value per slider (at most ten leading axes), it fails with \<open>IndexError\<close> and reads
  nothing when some value is at or above the extent of its axis or below minus the
  extent; otherwise it computes exactly the one block at the index tuple, a value from
  minus the extent to \<open>-1\<close> counting from the end of the axis, and shows its plane
  transposed. For values within 0 and the extent minus one the block is the one at those
  very positions.
\<close>

lemma view_image_indexing:
  fixes d :: "'a::linorder disk"
  assumes "conforms (scroll_shape a) (blocks a)"
    and "length (scroll_shape a) \<le> 10"
    and "distinct (map fst kwargs)"
    and "set (map fst kwargs) = set (map fst (sliders a))"
  shows "map snd (sliders a) = map (\<lambda>s. (0, int s - 1)) (scroll_shape a) \<and>
    ((\<exists>k < length (scroll_shape a).
        slider_value kwargs k < - int (scroll_shape a ! k) \<or>
        int (scroll_shape a ! k) \<le> slider_value kwargs k) \<longrightarrow>
       view_image d fs a kwargs = (Inl IndexError, [])) \<and>
    ((\<forall>k < length (scroll_shape a).
        - int (scroll_shape a ! k) \<le> slider_value kwargs k \<and>
        slider_value kwargs k < int (scroll_shape a ! k)) \<longrightarrow>
       (\<exists>task.
          block_at (blocks a)
            (map (\<lambda>k. wrap (slider_value kwargs k) (scroll_shape a ! k)) [0..<length (scroll_shape a)])
            = Leaf task \<and>
          view_image d fs a kwargs =
            (case compute d fs task of
               (Inl e, log) \<Rightarrow> (Inl e, log)
             | (Inr p, log) \<Rightarrow> (Inr (T p), log)))) \<and>
    ((\<forall>k < length (scroll_shape a).
        0 \<le> slider_value kwargs k \<and> slider_value kwargs k < int (scroll_shape a ! k)) \<longrightarrow>
       (\<exists>task.
          block_at (blocks a) (map (\<lambda>k. nat (slider_value kwargs k)) [0..<length (scroll_shape a)])
            = Leaf task \<and>
          view_image d fs a kwargs =
            (case compute d fs task of
               (Inl e, log) \<Rightarrow> (Inl e, log)
             | (Inr p, log) \<Rightarrow> (Inr (T p), log))))"
proof -
  let ?ss = "scroll_shape a"
  let ?n = "length ?ss"
  let ?v = "slider_value kwargs"
  have p: "pos kwargs = map ?v [0..<?n]"
    by (rule pos_slider_values [OF assms(2-4)])
  have lp: "length (pos kwargs) = ?n" unfolding p by simp
  have nth: "pos kwargs ! k = ?v k" if "k < ?n" for k
    unfolding p using that by simp
  have reject: "view_image d fs a kwargs = (Inl IndexError, [])"
    if "\<exists>k < ?n. ?v k < - int (?ss ! k) \<or> int (?ss ! k) \<le> ?v k"
  proof -
    from that obtain k where k: "k < ?n" and out: "?v k < - int (?ss ! k) \<or> int (?ss ! k) \<le> ?v k"
      by blast
    have "pos kwargs ! k < - int (?ss ! k) \<or> int (?ss ! k) \<le> pos kwargs ! k"
      using out nth [OF k] by simp
    then have "getitem (blocks a) (pos kwargs) = Inl IndexError"
      by (rule getitem_reject [OF assms(1) lp k])
    then show ?thesis by (rule view_image_IndexError)
  qed
  have accept: "\<exists>task. block_at (blocks a) (map (\<lambda>k. wrap (?v k) (?ss ! k)) [0..<?n]) = Leaf task \<and>
          view_image d fs a kwargs =
            (case compute d fs task of
               (Inl e, log) \<Rightarrow> (Inl e, log)
             | (Inr p, log) \<Rightarrow> (Inr (T p), log))"
    if ok: "\<forall>k < ?n. - int (?ss ! k) \<le> ?v k \<and> ?v k < int (?ss ! k)"
  proof -
    have "list_all2 (\<lambda>v s. - int s \<le> v \<and> v < int s) (pos kwargs) ?ss"
      using ok lp nth by (simp add: list_all2_conv_all_nth)
    from getitem_accept [OF assms(1) this] obtain task where
      g: "getitem (blocks a) (pos kwargs) = Inr (Leaf task)"
      and b: "block_at (blocks a) (map2 wrap (pos kwargs) ?ss) = Leaf task"
      by blast
    have "map2 wrap (pos kwargs) ?ss = map (\<lambda>k. wrap (?v k) (?ss ! k)) [0..<?n]"
      using lp nth by (intro nth_equalityI) simp_all
    with b have "block_at (blocks a) (map (\<lambda>k. wrap (?v k) (?ss ! k)) [0..<?n]) = Leaf task"
      by simp
    with view_image_block [OF g, of d fs] show ?thesis by blast
  qed
  have inside: "\<exists>task. block_at (blocks a) (map (\<lambda>k. nat (?v k)) [0..<?n]) = Leaf task \<and>
          view_image d fs a kwargs =
            (case compute d fs task of
               (Inl e, log) \<Rightarrow> (Inl e, log)
             | (Inr p, log) \<Rightarrow> (Inr (T p), log))"
    if ok: "\<forall>k < ?n. 0 \<le> ?v k \<and> ?v k < int (?ss ! k)"
  proof -
    have "\<forall>k < ?n. - int (?ss ! k) \<le> ?v k \<and> ?v k < int (?ss ! k)"
      using ok by force
    from accept [OF this] obtain task where
      b: "block_at (blocks a) (map (\<lambda>k. wrap (?v k) (?ss ! k)) [0..<?n]) = Leaf task"
      and v: "view_image d fs a kwargs =
            (case compute d fs task of
               (Inl e, log) \<Rightarrow> (Inl e, log)
             | (Inr p, log) \<Rightarrow> (Inr (T p), log))"
      by blast
    have "map (\<lambda>k. wrap (?v k) (?ss ! k)) [0..<?n] = map (\<lambda>k. nat (?v k)) [0..<?n]"
    proof (rule map_cong [OF refl])
      fix k assume "k \<in> set [0..<?n]"
      then have "0 \<le> ?v k" using ok by simp
      then show "wrap (?v k) (?ss ! k) = nat (?v k)" by (simp add: wrap_def)
    qed
    with b v show ?thesis by auto
  qed
  show ?thesis
    using slider_ranges [of a] reject accept inside by (intro conjI impI)
qed

lemma sliders_by_axis:
  "sliders a = map (\<lambda>k. (dim_name k, 0, int (scroll_shape a ! k) - 1)) [0..<length (scroll_shape a)]"
  unfolding sliders_def by (rule nth_equalityI) (simp_all add: nth_enumerate_eq)

lemma dim_name_inj:
  assumes "n \<le> 10" and "j < n" and "k < n" and "dim_name j = dim_name k"
  shows "j = k"
proof -
  have d: "distinct (map dim_name [0..<n])" by (rule names_sorted(2) [OF assms(1)])
  have "map dim_name [0..<n] ! j = map dim_name [0..<n] ! k"
    using assms(2-4) by simp
  then show ?thesis
    using d assms(2,3) by (simp add: nth_eq_iff_index_eq del: nth_map)
qed

lemma sliders_lookup:
  assumes "length (scroll_shape a) \<le> 10" and "k < length (scroll_shape a)"
  shows "map_of (sliders a) (dim_name k) = Some (0, int (scroll_shape a ! k) - 1)"
proof -
  have d: "distinct (map fst (sliders a))"
    unfolding slider_names by (rule names_sorted(2) [OF assms(1)])
  have "k \<in> set [0..<length (scroll_shape a)]" using assms(2) by simp
  then have "(\<lambda>k. (dim_name k, 0, int (scroll_shape a ! k) - 1)) k
      \<in> set (map (\<lambda>k. (dim_name k, 0, int (scroll_shape a ! k) - 1)) [0..<length (scroll_shape a)])"
    unfolding set_map by (rule imageI)
  then have "(dim_name k, 0, int (scroll_shape a ! k) - 1) \<in> set (sliders a)"
    by (simp only: sliders_by_axis)
  with d show ?thesis by (rule map_of_is_SomeI)
qed

lemma in_slider_ranges_value:
  assumes "in_slider_ranges a kwargs"
    and "length (scroll_shape a) \<le> 10" and "k < length (scroll_shape a)"
  shows "0 \<le> slider_value kwargs k" and "slider_value kwargs k \<le> int (scroll_shape a ! k) - 1"
proof -
  have d: "distinct (map fst kwargs)" and ks: "set (map fst kwargs) = set (map fst (sliders a))"
    and ok: "list_all (\<lambda>(n, x). case map_of (sliders a) n of
                            None \<Rightarrow> False
                          | Some (lo, hi) \<Rightarrow> lo \<le> x \<and> x \<le> hi) kwargs"
    using assms(1) by (simp_all add: in_slider_ranges_def)
  have "dim_name k \<in> set (map fst (sliders a))"
    unfolding slider_names using assms(3) by simp
  then have "dim_name k \<in> fst ` set kwargs" using ks by simp
  then obtain x where x: "(dim_name k, x) \<in> set kwargs" by force
  have m: "map_of kwargs (dim_name k) = Some x" using d x by (rule map_of_is_SomeI)
  have "case map_of (sliders a) (dim_name k) of None \<Rightarrow> False | Some (lo, hi) \<Rightarrow> lo \<le> x \<and> x \<le> hi"
    using ok x by (auto simp: list_all_iff)
  then have "0 \<le> x \<and> x \<le> int (scroll_shape a ! k) - 1"
    unfolding sliders_lookup [OF assms(2,3)] by simp
  then show "0 \<le> slider_value kwargs k" and "slider_value kwargs k \<le> int (scroll_shape a ! k) - 1"
    unfolding slider_value_def m by simp_all
qed

lemma map_of_update_values:
  "map_of (map (\<lambda>(n, x). (n, f n x)) kw) m = map_option (f m) (map_of kw m)"
  by (induction kw) auto

lemma set_slider_axis:
  assumes "length (scroll_shape a) \<le> 10" and "k < length (scroll_shape a)"
  shows "set_slider a kwargs (dim_name k) v =
         map (\<lambda>(n, x). (n, if n = dim_name k
                            then bounded_value (0, int (scroll_shape a ! k) - 1) v else x)) kwargs"
  unfolding set_slider_def sliders_lookup [OF assms] by simp

lemma set_slider_keys:
  assumes "length (scroll_shape a) \<le> 10" and "k < length (scroll_shape a)"
  shows "map fst (set_slider a kwargs (dim_name k) v) = map fst kwargs"
  unfolding set_slider_axis [OF assms] by (simp add: case_prod_unfold comp_def)

lemma bounded_value_range:
  assumes "lo \<le> hi"
  shows "lo \<le> bounded_value (lo, hi) v" and "bounded_value (lo, hi) v \<le> hi"
  using assms by (simp_all add: bounded_value_def)

lemma bounded_value_cases:
  assumes "0 \<le> hi"
  shows "bounded_value (0, hi) v = (if v < 0 then 0 else if hi < v then hi else v)"
  using assms by (simp add: bounded_value_def)

lemma set_slider_value:
  assumes "in_slider_ranges a kwargs"
    and "length (scroll_shape a) \<le> 10" and "k < length (scroll_shape a)"
    and "j < length (scroll_shape a)"
  shows "slider_value (set_slider a kwargs (dim_name k) v) j =
         (if j = k then bounded_value (0, int (scroll_shape a ! k) - 1) v
          else slider_value kwargs j)"
proof -
  have d: "distinct (map fst kwargs)" and ks: "set (map fst kwargs) = set (map fst (sliders a))"
    using assms(1) by (simp_all add: in_slider_ranges_def)
  have "dim_name j \<in> set (map fst (sliders a))"
    unfolding slider_names using assms(4) by simp
  then have "dim_name j \<in> fst ` set kwargs" using ks by simp
  then obtain x where x: "(dim_name j, x) \<in> set kwargs" by force
  have m: "map_of kwargs (dim_name j) = Some x" using d x by (rule map_of_is_SomeI)
  have eq: "dim_name j = dim_name k \<longleftrightarrow> j = k"
    using dim_name_inj [OF assms(2,4,3)] by blast
  show ?thesis
    unfolding slider_value_def set_slider_axis [OF assms(2,3)] map_of_update_values m
    by (simp add: eq)
qed

lemma set_slider_in_ranges:
  assumes "in_slider_ranges a kwargs"
    and "length (scroll_shape a) \<le> 10" and "k < length (scroll_shape a)"
  shows "in_slider_ranges a (set_slider a kwargs (dim_name k) v)"
proof -
  let ?hi = "int (scroll_shape a ! k) - 1"
  let ?ok = "\<lambda>(n, x). case map_of (sliders a) n of
                            None \<Rightarrow> False
                          | Some (lo, hi) \<Rightarrow> lo \<le> x \<and> x \<le> hi"
  have d: "distinct (map fst kwargs)" and ks: "set (map fst kwargs) = set (map fst (sliders a))"
    and ok: "list_all ?ok kwargs"
    using assms(1) by (simp_all add: in_slider_ranges_def)
  have hi: "0 \<le> ?hi"
    using in_slider_ranges_value [OF assms] by linarith
  have keys: "map fst (set_slider a kwargs (dim_name k) v) = map fst kwargs"
    by (rule set_slider_keys [OF assms(2,3)])
  have "list_all ?ok (set_slider a kwargs (dim_name k) v)"
    unfolding set_slider_axis [OF assms(2,3)] list_all_iff
  proof
    fix e assume "e \<in> set (map (\<lambda>(n, x). (n, if n = dim_name k
                            then bounded_value (0, ?hi) v else x)) kwargs)"
    then obtain n x where nx: "(n, x) \<in> set kwargs"
      and e: "e = (n, if n = dim_name k then bounded_value (0, ?hi) v else x)"
      by auto
    show "?ok e"
    proof (cases "n = dim_name k")
      case True
      then show ?thesis
        unfolding e using bounded_value_range [OF hi, of v] sliders_lookup [OF assms(2,3)]
        by simp
    next
      case False
      have "?ok (n, x)" using ok nx unfolding list_all_iff by (rule bspec)
      with False show ?thesis unfolding e by simp
    qed
  qed
  then show ?thesis
    unfolding in_slider_ranges_def keys using d ks by simp
qed

text \<open>
  Claim C8, amended. \<open>browse_images\<close> gives the slider of each leading axis the range from
  0 to the extent minus one, and a slider keeps its value in its range: a value outside
  is reported by nobody, it is floored or capped. For an array of at most ten leading
  axes whose sliders stand within their ranges, giving the slider of axis \<open>k\<close> any value
  \<open>v\<close> leaves all sliders within their ranges and those of the other axes where they
  stood; axis \<open>k\<close> stands at \<open>v\<close> when \<open>v\<close> is in range, at 0 when \<open>v\<close> is negative, at the
  extent minus one when \<open>v\<close> is above it; and \<open>view_image\<close>, called with the values of all
  sliders, computes exactly the one block at those positions and shows its plane
  transposed.
\<close>

theorem slider_sets_position:
  fixes d :: "'a::linorder disk"
  assumes "conforms (scroll_shape a) (blocks a)"
    and "length (scroll_shape a) \<le> 10"
    and "in_slider_ranges a kwargs"
    and "k < length (scroll_shape a)"
  shows "map snd (sliders a) = map (\<lambda>s. (0, int s - 1)) (scroll_shape a) \<and>
    in_slider_ranges a (set_slider a kwargs (dim_name k) v) \<and>
    slider_value (set_slider a kwargs (dim_name k) v) k =
      (if v < 0 then 0
       else if int (scroll_shape a ! k) - 1 < v then int (scroll_shape a ! k) - 1
       else v) \<and>
    (\<forall>j < length (scroll_shape a). j \<noteq> k \<longrightarrow>
       slider_value (set_slider a kwargs (dim_name k) v) j = slider_value kwargs j) \<and>
    (\<exists>task.
       block_at (blocks a)
         (map (\<lambda>j. nat (slider_value (set_slider a kwargs (dim_name k) v) j))
              [0..<length (scroll_shape a)])
         = Leaf task \<and>
       view_image d fs a (set_slider a kwargs (dim_name k) v) =
         (case compute d fs task of
            (Inl e, log) \<Rightarrow> (Inl e, log)
          | (Inr p, log) \<Rightarrow> (Inr (T p), log)))"
proof -
  let ?ss = "scroll_shape a"
  let ?n = "length ?ss"
  let ?kw = "set_slider a kwargs (dim_name k) v"
  have c1: "map snd (sliders a) = map (\<lambda>s. (0, int s - 1)) ?ss" by (rule slider_ranges)
  have c2: "in_slider_ranges a ?kw"
    by (rule set_slider_in_ranges [OF assms(3,2,4)])
  have hi: "0 \<le> int (?ss ! k) - 1"
    using in_slider_ranges_value [OF assms(3,2,4)] by linarith
  have c3: "slider_value ?kw k =
      (if v < 0 then 0 else if int (?ss ! k) - 1 < v then int (?ss ! k) - 1 else v)"
    unfolding set_slider_value [OF assms(3,2,4,4)] using bounded_value_cases [OF hi] by simp
  have c4: "\<forall>j < ?n. j \<noteq> k \<longrightarrow> slider_value ?kw j = slider_value kwargs j"
    using set_slider_value [OF assms(3,2,4)] by simp
  have d: "distinct (map fst ?kw)" and ks: "set (map fst ?kw) = set (map fst (sliders a))"
    using c2 by (simp_all add: in_slider_ranges_def)
  have inside: "\<forall>j < ?n. 0 \<le> slider_value ?kw j \<and> slider_value ?kw j < int (?ss ! j)"
  proof (intro allI impI)
    fix j assume j: "j < ?n"
    show "0 \<le> slider_value ?kw j \<and> slider_value ?kw j < int (?ss ! j)"
      using in_slider_ranges_value [OF c2 assms(2) j] by linarith
  qed
  have c5: "\<exists>task.
       block_at (blocks a) (map (\<lambda>j. nat (slider_value ?kw j)) [0..<?n]) = Leaf task \<and>
       view_image d fs a ?kw =
         (case compute d fs task of
            (Inl e, log) \<Rightarrow> (Inl e, log)
          | (Inr p, log) \<Rightarrow> (Inr (T p), log))"
    using view_image_indexing [OF assms(1,2) d ks, of d fs] inside by blast
  show ?thesis using c1 c2 c3 c4 c5 by (intro conjI)
qed


theorem slider_sets_position_witness:
  "conforms (scroll_shape scenario_ims) (blocks scenario_ims) \<and>
   length (scroll_shape scenario_ims) \<le> 10 \<and>
   in_slider_ranges scenario_ims [(''dim 1'', 1), (''dim 0'', 2)] \<and>
   0 < length (scroll_shape scenario_ims) \<and>
   set_slider scenario_ims [(''dim 1'', 1), (''dim 0'', 2)] (dim_name 0) 3
     = [(''dim 1'', 1), (''dim 0'', 3)] \<and>
   in_slider_ranges scenario_ims [(''dim 1'', 1), (''dim 0'', 3)] \<and>
   slider_value [(''dim 1'', 1), (''dim 0'', 3)] 0 = 3 \<and>
   view_image scenario_disk scenario_files scenario_ims [(''dim 1'', 1), (''dim 0'', 3)]
     = (Inr (T (scenario_plane 10 10 3 1)), [Read_page ''data/large_3d_dataset_tp003.tif'' 1])"
proof -
  let ?kw = "[(''dim 1'', 1), (''dim 0'', 2 :: int)]"
  let ?kw' = "[(''dim 1'', 1), (''dim 0'', 3 :: int)]"
  have h1: "conforms (scroll_shape scenario_ims) (blocks scenario_ims)" by code_simp
  have h2: "length (scroll_shape scenario_ims) \<le> 10" by code_simp
  have h3: "in_slider_ranges scenario_ims ?kw" by code_simp
  have h4: "0 < length (scroll_shape scenario_ims)" by code_simp
  have st: "set_slider scenario_ims ?kw (dim_name 0) 3 = ?kw'" by code_simp
  have s0: "scroll_shape scenario_ims ! 0 = 5" by code_simp
  note inst = slider_sets_position [OF h1 h2 h3 h4, of 3 scenario_disk scenario_files]
  have r: "in_slider_ranges scenario_ims ?kw'"
    using inst unfolding st by blast
  have "slider_value ?kw' 0 =
      (if (3::int) < 0 then 0
       else if int (scroll_shape scenario_ims ! 0) - 1 < 3 then int (scroll_shape scenario_ims ! 0) - 1
       else 3)"
    using inst unfolding st by blast
  then have p: "slider_value ?kw' 0 = 3" unfolding s0 by simp
  obtain task where
    b: "block_at (blocks scenario_ims)
          (map (\<lambda>j. nat (slider_value ?kw' j)) [0..<length (scroll_shape scenario_ims)]) = Leaf task"
    and v: "view_image scenario_disk scenario_files scenario_ims ?kw' =
            (case compute scenario_disk scenario_files task of
               (Inl e, log) \<Rightarrow> (Inl e, log)
             | (Inr p, log) \<Rightarrow> (Inr (T p), log))"
    using inst unfolding st by blast
  have "block_at (blocks scenario_ims)
          (map (\<lambda>j. nat (slider_value ?kw' j)) [0..<length (scroll_shape scenario_ims)])
        = Leaf (Load_2d 3 1)"
    by code_simp
  with b have task: "task = Load_2d 3 1" by simp
  have c: "compute scenario_disk scenario_files (Load_2d 3 1)
      = (Inr (scenario_plane 10 10 3 1), [Read_page ''data/large_3d_dataset_tp003.tif'' 1])"
    by code_simp
  have a: "view_image scenario_disk scenario_files scenario_ims ?kw'
     = (Inr (T (scenario_plane 10 10 3 1)), [Read_page ''data/large_3d_dataset_tp003.tif'' 1])"
    unfolding v task c by simp
  show ?thesis using h1 h2 h3 h4 st r p a by (intro conjI)
qed

text \<open>
  Counterexample to claim C8 as stated. The first slider, of the axis of extent 5, stands
  at 2 and is given the value 7: nothing is reported, the position moves to 4, and
  \<open>view_image\<close> shows the plane at \<open>(4, 1)\<close>. And an array of eleven leading axes with every
  slider in range, the last at 1: the block at those positions is the second plane, but
  the value of axis 10 lands on axis 2, of extent 1, and \<open>view_image\<close> raises \<open>IndexError\<close>.
\<close>

theorem set_slider_counterexample:
  "in_slider_ranges scenario_ims [(''dim 0'', 2), (''dim 1'', 1)] \<and>
   sliders scenario_ims = [(''dim 0'', 0, 4), (''dim 1'', 0, 2)] \<and>
   set_slider scenario_ims [(''dim 0'', 2), (''dim 1'', 1)] ''dim 0'' 7
     = [(''dim 0'', 4), (''dim 1'', 1)] \<and>
   view_image scenario_disk scenario_files scenario_ims [(''dim 0'', 4), (''dim 1'', 1)]
     = (Inr (T (scenario_plane 10 10 4 1)), [Read_page ''data/large_3d_dataset_tp004.tif'' 1]) \<and>
   conforms (scroll_shape eleven_axes) (blocks eleven_axes) \<and>
   sliders eleven_axes
     = [(''dim 0'', 0, 0), (''dim 1'', 0, 0), (''dim 2'', 0, 0), (''dim 3'', 0, 0),
        (''dim 4'', 0, 0), (''dim 5'', 0, 0), (''dim 6'', 0, 0), (''dim 7'', 0, 0),
        (''dim 8'', 0, 0), (''dim 9'', 0, 0), (''dim 10'', 0, 1)] \<and>
   in_slider_ranges eleven_axes eleven_kwargs \<and>
   block_at (blocks eleven_axes) [0, 0, 0, 0, 0, 0, 0, 0, 0, 0, 1] = Leaf (Load_2d 0 1) \<and>
   pos eleven_kwargs = [0, 0, 1, 0, 0, 0, 0, 0, 0, 0, 0] \<and>
   view_image scenario_disk scenario_files eleven_axes eleven_kwargs = (Inl IndexError, [])"
  by code_simp

subsection \<open>Maximum projection\<close>

lemma maximum_entry:
  assumes "map length q = map length p"
  shows "map length (maximum p q) = map length p"
    and "y < length p \<Longrightarrow> x < length (p ! y) \<Longrightarrow> maximum p q ! y ! x = max (p ! y ! x) (q ! y ! x)"
proof -
  have l: "length q = length p" using assms by (metis length_map)
  have r: "length (q ! y) = length (p ! y)" if "y < length p" for y
    using assms that l by (metis nth_map)
  show "map length (maximum p q) = map length p"
    using l r by (intro nth_equalityI) (simp_all add: maximum_def)
  show "y < length p \<Longrightarrow> x < length (p ! y) \<Longrightarrow> maximum p q ! y ! x = max (p ! y ! x) (q ! y ! x)"
    using l r by (simp add: maximum_def)
qed

lemma fold_maximum:
  assumes "list_all (\<lambda>q. map length q = map length p) qs"
  shows "map length (fold (\<lambda>q acc. maximum acc q) qs p) = map length p \<and>
         (\<forall>y x. y < length p \<and> x < length (p ! y) \<longrightarrow>
            fold (\<lambda>q acc. maximum acc q) qs p ! y ! x = Max ((\<lambda>q. q ! y ! x) ` set (p # qs)))"
  using assms
proof (induction qs arbitrary: p)
  case Nil
  then show ?case by simp
next
  case (Cons q qs)
  let ?m = "maximum p q"
  have q: "map length q = map length p" using Cons.prems by simp
  have sh: "map length ?m = map length p" by (rule maximum_entry(1) [OF q])
  have "list_all (\<lambda>r. map length r = map length ?m) qs"
    using Cons.prems by (simp add: sh)
  from Cons.IH [OF this]
  have len: "map length (fold (\<lambda>q acc. maximum acc q) qs ?m) = map length ?m"
    and ent: "\<And>y x. y < length ?m \<Longrightarrow> x < length (?m ! y) \<Longrightarrow>
            fold (\<lambda>q acc. maximum acc q) qs ?m ! y ! x = Max ((\<lambda>q. q ! y ! x) ` set (?m # qs))"
    by blast+
  have lm: "length ?m = length p" using sh by (metis length_map)
  have rm: "length (?m ! y) = length (p ! y)" if "y < length p" for y
    using sh that lm by (metis nth_map)
  have "fold (\<lambda>q acc. maximum acc q) (q # qs) p ! y ! x = Max ((\<lambda>q. q ! y ! x) ` set (p # q # qs))"
    if y: "y < length p" and x: "x < length (p ! y)" for y x
  proof -
    have "fold (\<lambda>q acc. maximum acc q) (q # qs) p ! y ! x
          = Max ((\<lambda>q. q ! y ! x) ` set (?m # qs))"
      using ent [of y x] y x lm rm by simp
    also have "\<dots> = Max (insert (max (p ! y ! x) (q ! y ! x)) ((\<lambda>q. q ! y ! x) ` set qs))"
      using maximum_entry(2) [OF q y x] by simp
    also have "\<dots> = Max ((\<lambda>q. q ! y ! x) ` set (p # q # qs))"
    proof (cases "qs = []")
      case True
      then show ?thesis by (simp add: max.commute)
    next
      case False
      then have "Max (insert (max (p ! y ! x) (q ! y ! x)) ((\<lambda>q. q ! y ! x) ` set qs))
                 = max (max (p ! y ! x) (q ! y ! x)) (Max ((\<lambda>q. q ! y ! x) ` set qs))"
        by simp
      also have "\<dots> = Max ((\<lambda>q. q ! y ! x) ` set (p # q # qs))"
        using False by (simp add: max.assoc)
      finally show ?thesis .
    qed
    finally show ?thesis .
  qed
  then show ?case using len sh by simp
qed

lemma reduce_max_entry:
  assumes "list_all (\<lambda>q. map length q = map length p) qs"
  shows "\<exists>P. reduce_max (p # qs) = Inr P \<and> map length P = map length p \<and>
           (\<forall>y x. y < length P \<and> x < length (P ! y) \<longrightarrow>
              P ! y ! x = Max ((\<lambda>q. q ! y ! x) ` set (p # qs)))"
proof -
  let ?P = "fold (\<lambda>q acc. maximum acc q) qs p"
  have r: "reduce_max (p # qs) = Inr ?P" using assms by (simp add: reduce_max_def)
  have sh: "map length ?P = map length p"
    and ent: "\<And>y x. y < length p \<Longrightarrow> x < length (p ! y) \<Longrightarrow>
            ?P ! y ! x = Max ((\<lambda>q. q ! y ! x) ` set (p # qs))"
    using fold_maximum [OF assms] by blast+
  have lp: "length ?P = length p" using sh by (metis length_map)
  have rp: "length (?P ! y) = length (p ! y)" if "y < length p" for y
    using sh that lp by (metis nth_map)
  have "?P ! y ! x = Max ((\<lambda>q. q ! y ! x) ` set (p # qs))"
    if "y < length ?P" and "x < length (?P ! y)" for y x
  proof -
    have "y < length p" using that(1) lp by simp
    moreover have "x < length (p ! y)" using that(2) rp [OF \<open>y < length p\<close>] by simp
    ultimately show ?thesis by (rule ent)
  qed
  with r sh show ?thesis by blast
qed

lemma compute_all_Inr:
  assumes "\<forall>task \<in> set ts. fst (compute d fs task) = Inr (P task)"
  shows "compute_all d fs ts =
         (Inr (map P ts), concat (map (\<lambda>task. snd (compute d fs task)) ts))"
  using assms
proof (induction ts)
  case Nil
  then show ?case by simp
next
  case (Cons task ts)
  have h: "compute d fs task = (Inr (P task), snd (compute d fs task))"
    using Cons.prems by (metis list.set_intros(1) prod.collapse)
  have t: "compute_all d fs ts = (Inr (map P ts), concat (map (\<lambda>task. snd (compute d fs task)) ts))"
    using Cons by simp
  show ?case
    by (subst compute_all.simps, subst h, subst t) simp
qed

lemma project_ims_blocks:
  "project (Suc 0) (ims_blocks nt nz) =
   Node (map (\<lambda>t. Leaf (Max_planes (map (Load_2d t) [0..<nz]))) [0..<nt])"
proof -
  have "concat (map unleaf (map (\<lambda>z. Leaf (Load_2d t z)) [0..<nz])) = map (Load_2d t) [0..<nz]" for t
    by (induction nz) simp_all
  then show ?thesis by (simp add: ims_blocks_def comp_def)
qed

lemma da_max_ims:
  assumes "open_dataset sf d pat = Inr (idx, a)" and "axis = - 3 \<or> axis = 1"
  shows "da_max a axis =
         Some (Inr \<lparr>da_shape = [N_t idx, N_x idx, N_y idx], da_dtype = da_dtype a,
                    blocks = Node (map (\<lambda>t. Leaf (Max_planes (map (Load_2d t) [0..<N_z idx])))
                                       [0..<N_t idx])\<rparr>)"
proof -
  have sh: "da_shape a = [N_t idx, N_z idx, N_x idx, N_y idx]"
    and bl: "blocks a = ims_blocks (N_t idx) (N_z idx)"
    using open_dataset_blocks(3,4) [OF assms(1)] by simp_all
  have ax: "normalize_axis axis (length (da_shape a)) = Inr (Suc 0)"
    using assms(2) by (auto simp: normalize_axis_def sh)
  show ?thesis
    unfolding da_max_def ax by (simp add: sh bl project_ims_blocks)
qed

lemma compute_at_max:
  assumes "t < nt"
  shows "compute_at d fs
           \<lparr>da_shape = sh, da_dtype = dt,
            blocks = Node (map (\<lambda>t. Leaf (Max_planes (map (Load_2d t) [0..<nz]))) [0..<nt])\<rparr>
           [int t]
         = compute d fs (Max_planes (map (Load_2d t) [0..<nz]))"
  using assms by (simp add: compute_at_def py_index_nat)

text \<open>
  Claim C4. The projection \<open>ims.max(-3)\<close>, which is \<open>ims.max(1)\<close>, of a built lazy volume
  drops the depth axis. Where the planes of time point \<open>t\<close> compute to \<open>V 0, \<dots>, V (N_z - 1)\<close>,
  all of one shape, the plane of the projection at \<open>t\<close> has that shape and its element at
  every \<open>(y, x)\<close>, hence over every sub-region, is the maximum of \<open>V z\<close> at \<open>(y, x)\<close> over the
  full depth range; computing it reads what computing those planes reads.
\<close>

theorem max_projection_pointwise:
  fixes d :: "'a::linorder disk"
  assumes "open_dataset sf d pat = Inr (idx, a)"
    and "axis = - 3 \<or> axis = 1"
    and "t < N_t idx"
    and "\<forall>z < N_z idx. fst (compute_at d (files idx) a [int t, int z]) = Inr (V z)"
    and "\<forall>z < N_z idx. map length (V z) = map length (V 0)"
  shows "\<exists>m P. da_max a axis = Some (Inr m) \<and>
           da_shape m = [N_t idx, N_x idx, N_y idx] \<and>
           fst (compute_at d (files idx) m [int t]) = Inr P \<and>
           mset (snd (compute_at d (files idx) m [int t]))
             = (\<Sum>z \<leftarrow> [0..<N_z idx]. mset (snd (compute_at d (files idx) a [int t, int z]))) \<and>
           map length P = map length (V 0) \<and>
           (\<forall>y x. y < length P \<and> x < length (P ! y) \<longrightarrow>
              P ! y ! x = Max ((\<lambda>z. V z ! y ! x) ` {0..<N_z idx}))"
proof -
  let ?fs = "files idx"
  let ?ts = "map (Load_2d t) [0..<N_z idx]"
  define m where "m = \<lparr>da_shape = [N_t idx, N_x idx, N_y idx], da_dtype = da_dtype a,
      blocks = Node (map (\<lambda>t. Leaf (Max_planes (map (Load_2d t) [0..<N_z idx]))) [0..<N_t idx])\<rparr>"
  have dm: "da_max a axis = Some (Inr m)"
    unfolding m_def by (rule da_max_ims [OF assms(1,2)])
  have shape: "da_shape m = [N_t idx, N_x idx, N_y idx]" by (simp add: m_def)
  have nz: "0 < N_z idx" by (rule open_dataset_blocks(2) [OF assms(1)])
  have plane: "compute_at d ?fs a [int t, int z] = compute d ?fs (Load_2d t z)"
    if "z < N_z idx" for z
    using compute_at_ims [OF assms(1,3) that, where fs = ?fs] by simp
  have each: "\<forall>task \<in> set ?ts. fst (compute d ?fs task) = Inr ((\<lambda>task. case task of Load_2d _ z \<Rightarrow> V z | _ \<Rightarrow> []) task)"
    using assms(4) plane by auto
  have all: "compute_all d ?fs ?ts =
      (Inr (map V [0..<N_z idx]),
       concat (map (\<lambda>z. snd (compute_at d ?fs a [int t, int z])) [0..<N_z idx]))"
  proof -
    have l: "map (\<lambda>z. snd (load_2d d ?fs t z)) [0..<N_z idx]
             = map (\<lambda>z. snd (compute_at d ?fs a [int t, int z])) [0..<N_z idx]"
      by (rule map_cong [OF refl]) (simp add: plane)
    show ?thesis
      unfolding compute_all_Inr [OF each] by (simp add: comp_def l)
  qed
  have cm: "compute_at d ?fs m [int t] = compute d ?fs (Max_planes ?ts)"
    unfolding m_def by (rule compute_at_max [OF assms(3)])
  have split: "[0..<N_z idx] = 0 # [1..<N_z idx]"
    using nz by (simp add: upt_conv_Cons)
  have same: "list_all (\<lambda>q. map length q = map length (V 0)) (map V [1..<N_z idx])"
    unfolding list_all_iff
  proof
    fix q assume "q \<in> set (map V [1..<N_z idx])"
    then obtain z where "z < N_z idx" and "q = V z" by auto
    then show "map length q = map length (V 0)" using assms(5) by blast
  qed
  obtain P where r: "reduce_max (V 0 # map V [1..<N_z idx]) = Inr P"
    and sh: "map length P = map length (V 0)"
    and ent: "\<forall>y x. y < length P \<and> x < length (P ! y) \<longrightarrow>
              P ! y ! x = Max ((\<lambda>q. q ! y ! x) ` set (V 0 # map V [1..<N_z idx]))"
    using reduce_max_entry [OF same] by blast
  have planes: "map V [0..<N_z idx] = V 0 # map V [1..<N_z idx]"
    by (subst split) simp
  have "compute d ?fs (Max_planes ?ts) =
      (reduce_max (map V [0..<N_z idx]),
       concat (map (\<lambda>z. snd (compute_at d ?fs a [int t, int z])) [0..<N_z idx]))"
    by (simp only: compute.simps all prod.case sum.case)
  then have res: "compute_at d ?fs m [int t] =
      (Inr P, concat (map (\<lambda>z. snd (compute_at d ?fs a [int t, int z])) [0..<N_z idx]))"
    unfolding cm planes r .
  have c1: "fst (compute_at d ?fs m [int t]) = Inr P" unfolding res by simp
  have c2: "mset (snd (compute_at d ?fs m [int t]))
             = (\<Sum>z \<leftarrow> [0..<N_z idx]. mset (snd (compute_at d ?fs a [int t, int z])))"
    unfolding res by (simp only: snd_conv mset_concat map_map comp_def)
  have img: "(\<lambda>q. q ! y ! x) ` set (V 0 # map V [1..<N_z idx]) = (\<lambda>z. V z ! y ! x) ` {0..<N_z idx}" for y x
  proof -
    have "(\<lambda>q. q ! y ! x) ` set (map V [0..<N_z idx]) = (\<lambda>z. V z ! y ! x) ` {0..<N_z idx}"
      by (simp only: set_map set_upt image_image)
    then show ?thesis unfolding planes .
  qed
  have c3: "\<forall>y x. y < length P \<and> x < length (P ! y) \<longrightarrow>
              P ! y ! x = Max ((\<lambda>z. V z ! y ! x) ` {0..<N_z idx})"
    using ent unfolding img .
  show ?thesis
    using dm shape c1 c2 sh c3 by (intro exI [of _ m] exI [of _ P] conjI)
qed

lemma all_below_three:
  assumes "P 0" and "P 1" and "P 2"
  shows "\<forall>z < (3::nat). P z"
proof (intro allI impI)
  fix z :: nat
  assume "z < 3"
  then have "z = 0 \<or> z = 1 \<or> z = 2" by arith
  with assms show "P z" by blast
qed

theorem max_projection_pointwise_witness:
  "open_dataset first_matched scenario_disk file_pattern = Inr (scenario_index, scenario_ims) \<and>
   2 < N_t scenario_index \<and>
   fst (compute_at scenario_disk (files scenario_index) scenario_ims [int 2, int 0])
     = Inr (scenario_plane 10 10 2 0) \<and>
   fst (compute_at scenario_disk (files scenario_index) scenario_ims [int 2, int 1])
     = Inr (scenario_plane 10 10 2 1) \<and>
   fst (compute_at scenario_disk (files scenario_index) scenario_ims [int 2, int 2])
     = Inr (scenario_plane 10 10 2 2) \<and>
   da_max scenario_ims (- 3) = Some (Inr scenario_max) \<and>
   da_shape scenario_max = [5, 10, 10] \<and>
   (\<exists>P. fst (compute_at scenario_disk (files scenario_index) scenario_max [int 2]) = Inr P \<and>
        P ! 4 ! 7 = Max ((\<lambda>z. scenario_plane 10 10 2 z ! 4 ! 7) ` {0..<3}) \<and>
        P ! 4 ! 7 = 10)"
proof -
  let ?V = "scenario_plane 10 10 2"
  let ?fs = "files scenario_index"
  have nt: "2 < N_t scenario_index" and nz: "N_z scenario_index = 3"
    and nx: "N_x scenario_index = 10" and ny: "N_y scenario_index = 10"
    by code_simp+
  have v0: "fst (compute_at scenario_disk ?fs scenario_ims [int 2, int 0]) = Inr (?V 0)"
    and v1: "fst (compute_at scenario_disk ?fs scenario_ims [int 2, int 1]) = Inr (?V 1)"
    and v2: "fst (compute_at scenario_disk ?fs scenario_ims [int 2, int 2]) = Inr (?V 2)"
    by code_simp+
  have planes: "\<forall>z < N_z scenario_index.
      fst (compute_at scenario_disk ?fs scenario_ims [int 2, int z]) = Inr (?V z)"
    unfolding nz using v0 v1 v2 by (rule all_below_three)
  have s0: "map length (?V 1) = map length (?V 0)" and s1: "map length (?V 2) = map length (?V 0)"
    by code_simp+
  have s00: "map length (?V 0) = map length (?V 0)" ..
  have shapes: "\<forall>z < N_z scenario_index. map length (?V z) = map length (?V 0)"
    unfolding nz using s00 s0 s1 by (rule all_below_three)
  have ax: "(- 3 :: int) = - 3 \<or> (- 3 :: int) = 1" by simp
  obtain m P where dm: "da_max scenario_ims (- 3) = Some (Inr m)"
    and sh: "da_shape m = [N_t scenario_index, N_x scenario_index, N_y scenario_index]"
    and c: "fst (compute_at scenario_disk ?fs m [int 2]) = Inr P"
    and len: "map length P = map length (?V 0)"
    and ent: "\<forall>y x. y < length P \<and> x < length (P ! y) \<longrightarrow>
              P ! y ! x = Max ((\<lambda>z. ?V z ! y ! x) ` {0..<N_z scenario_index})"
    using max_projection_pointwise [OF scenario_open ax nt planes shapes] by blast
  have dm': "da_max scenario_ims (- 3) = Some (Inr scenario_max)" by code_simp
  have m: "m = scenario_max" using dm dm' by simp
  have shape: "da_shape scenario_max = [5, 10, 10]" by code_simp
  have l0: "map length (?V 0) = replicate 10 10" by code_simp
  have lp: "length P = 10" using len l0 by (metis length_map length_replicate)
  have "map length P ! 4 = 10" unfolding len l0 by simp
  then have lr: "length (P ! 4) = 10" using lp by simp
  have e: "P ! 4 ! 7 = Max ((\<lambda>z. ?V z ! 4 ! 7) ` {0..<3})"
    using ent lp lr unfolding nz by simp
  have mx: "Max ((\<lambda>z. ?V z ! 4 ! 7) ` {0..<3}) = 10" by code_simp
  have ex: "\<exists>P. fst (compute_at scenario_disk ?fs scenario_max [int 2]) = Inr P \<and>
        P ! 4 ! 7 = Max ((\<lambda>z. ?V z ! 4 ! 7) ` {0..<3}) \<and> P ! 4 ! 7 = 10"
    using c e mx unfolding m by (intro exI [of _ P] conjI) simp_all
  show ?thesis
    using scenario_open nt v0 v1 v2 dm' shape ex by (intro conjI)
qed

subsection \<open>Blocks with overlap\<close>

lemma rectangular_rows:
  assumes "rectangular a"
  shows "list_all (\<lambda>row. length row = width a) a"
  using assms by (simp add: rectangular_def)

lemma crop_shape:
  assumes "list_all (\<lambda>row. length row = W) a" and "snd ys \<le> length a" and "snd xs \<le> W"
  shows "length (crop a ys xs) = snd ys - fst ys"
    and "list_all (\<lambda>row. length row = snd xs - fst xs) (crop a ys xs)"
proof -
  show "length (crop a ys xs) = snd ys - fst ys"
    using assms(2) by (simp add: crop_def)
  have "\<forall>row \<in> set (take (snd ys - fst ys) (drop (fst ys) a)). length row = W"
    using assms(1) by (auto simp: list_all_iff dest: in_set_takeD in_set_dropD)
  then show "list_all (\<lambda>row. length row = snd xs - fst xs) (crop a ys xs)"
    using assms(3) by (auto simp: crop_def list_all_iff)
qed

lemma crop_entry:
  assumes "list_all (\<lambda>row. length row = W) a" and "snd ys \<le> length a" and "snd xs \<le> W"
    and "y < snd ys - fst ys" and "x < snd xs - fst xs"
  shows "crop a ys xs ! y ! x = a ! (fst ys + y) ! (fst xs + x)"
proof -
  have in_a: "fst ys + y < length a" using assms(2,4) by simp
  then have le: "fst ys \<le> length a" by simp
  have w: "length (a ! (fst ys + y)) = W" using assms(1) in_a by (simp add: list_all_length)
  have "crop a ys xs ! y = take (snd xs - fst xs) (drop (fst xs) (a ! (fst ys + y)))"
    using assms(4) in_a le by (simp add: crop_def)
  then show ?thesis using assms(3,5) w by simp
qed

lemma lookup_inside:
  assumes "list_all (\<lambda>row. length row = W) a"
    and "0 \<le> i" and "i < int (length a)" and "0 \<le> j" and "j < int W"
  shows "lookup a i j = Some (a ! nat i ! nat j)"
proof -
  have "nat i < length a" using assms(2,3) by (simp add: nat_less_iff)
  then have "length (a ! nat i) = W" using assms(1) by (simp add: list_all_length)
  then show ?thesis using assms(2-5) by (simp add: lookup_def)
qed

lemma lookup_outside:
  assumes "list_all (\<lambda>row. length row = W) a"
    and "\<not> (0 \<le> i \<and> i < int (length a) \<and> 0 \<le> j \<and> j < int W)"
  shows "lookup a i j = None"
proof (cases "0 \<le> i \<and> i < int (length a)")
  case False
  then show ?thesis by (auto simp: lookup_def)
next
  case True
  then have "nat i < length a" by (simp add: nat_less_iff)
  then have "length (a ! nat i) = W" using assms(1) by (simp add: list_all_length)
  then show ?thesis using True assms(2) by (auto simp: lookup_def)
qed

lemma lookup_crop:
  assumes "list_all (\<lambda>row. length row = W) a" and "snd ys \<le> length a" and "snd xs \<le> W"
    and "0 \<le> i" and "i < int (snd ys - fst ys)" and "0 \<le> j" and "j < int (snd xs - fst xs)"
  shows "lookup (crop a ys xs) i j = lookup a (int (fst ys) + i) (int (fst xs) + j)"
proof -
  have y: "nat i < snd ys - fst ys" using assms(4,5) by (simp add: nat_less_iff)
  have x: "nat j < snd xs - fst xs" using assms(6,7) by (simp add: nat_less_iff)
  have ni: "nat (int (fst ys) + i) = fst ys + nat i" using assms(4) by (simp add: nat_add_distrib)
  have nj: "nat (int (fst xs) + j) = fst xs + nat j" using assms(6) by (simp add: nat_add_distrib)
  have "lookup (crop a ys xs) i j = Some (crop a ys xs ! nat i ! nat j)"
    using crop_shape [OF assms(1-3)] assms(4-7) by (intro lookup_inside) simp_all
  also have "\<dots> = Some (a ! (fst ys + nat i) ! (fst xs + nat j))"
    by (simp only: crop_entry [OF assms(1-3) y x])
  also have "\<dots> = lookup a (int (fst ys) + i) (int (fst xs) + j)"
  proof -
    have "int (fst ys) + i < int (length a)" using y assms(2) by linarith
    moreover have "int (fst xs) + j < int W" using x assms(3) by linarith
    ultimately have "lookup a (int (fst ys) + i) (int (fst xs) + j)
        = Some (a ! nat (int (fst ys) + i) ! nat (int (fst xs) + j))"
      using assms(4,6) by (intro lookup_inside [OF assms(1)]) simp_all
    then show ?thesis by (simp only: ni nj)
  qed
  finally show ?thesis .
qed

lemma neighbourhood_shape:
  "length (neighbourhood k r a) = length a"
  "y < length a \<Longrightarrow> length (neighbourhood k r a ! y) = length (a ! y)"
  "y < length a \<Longrightarrow> x < length (a ! y) \<Longrightarrow> neighbourhood k r a ! y ! x = k (window a r y x)"
  by (simp_all add: neighbourhood_def)

lemma neighbourhood_rows:
  assumes "list_all (\<lambda>row. length row = W) a"
  shows "list_all (\<lambda>row. length row = W) (neighbourhood k r a)"
  using assms by (simp add: list_all_length neighbourhood_shape)

text \<open>
  Along one axis: a position within the support of an element of the block lies in the
  padded, clamped range exactly when it lies in the array.
\<close>

lemma padded_axis:
  fixes d :: int
  assumes "lo \<le> hi" and "hi \<le> n" and "p < hi - lo" and "r \<le> m" and "\<bar>d\<bar> \<le> int r"
  shows "lo - m \<le> lo"
    and "hi - (lo - m) \<le> min n (hi + m) - (lo - m)"
    and "int (lo - m) + (int (lo - (lo - m) + p) + d) = int (lo + p) + d"
    and "(0 \<le> int (lo - (lo - m) + p) + d \<and>
          int (lo - (lo - m) + p) + d < int (min n (hi + m) - (lo - m)))
         \<longleftrightarrow> (0 \<le> int (lo + p) + d \<and> int (lo + p) + d < int n)"
  using assms by (auto simp: min_def)

lemma trim_offset:
  fixes p lo hi n m :: nat
  assumes "p < hi - lo" and "hi \<le> n"
  shows "lo - (lo - m) + p < min n (hi + m) - (lo - m)"
  using assms by arith

lemma window_padded:
  assumes rows: "list_all (\<lambda>row. length row = W) a"
    and ys: "fst ys \<le> snd ys" "snd ys \<le> length a"
    and xs: "fst xs \<le> snd xs" "snd xs \<le> W"
    and r: "fst r \<le> fst depth" "snd r \<le> snd depth"
    and y: "y < snd ys - fst ys" and x: "x < snd xs - fst xs"
  shows "window (crop a (fst ys - fst depth, min (length a) (snd ys + fst depth))
                        (fst xs - snd depth, min W (snd xs + snd depth)))
                r (fst ys - (fst ys - fst depth) + y) (fst xs - (fst xs - snd depth) + x)
         = window a r (fst ys + y) (fst xs + x)"
proof (intro ext)
  fix dy dx :: int
  let ?ylo = "fst ys - fst depth" and ?yhi = "min (length a) (snd ys + fst depth)"
  let ?xlo = "fst xs - snd depth" and ?xhi = "min W (snd xs + snd depth)"
  let ?P = "crop a (?ylo, ?yhi) (?xlo, ?xhi)"
  let ?i = "int (fst ys - ?ylo + y) + dy" and ?j = "int (fst xs - ?xlo + x) + dx"
  show "window ?P r (fst ys - ?ylo + y) (fst xs - ?xlo + x) dy dx
        = window a r (fst ys + y) (fst xs + x) dy dx"
  proof (cases "\<bar>dy\<bar> \<le> int (fst r) \<and> \<bar>dx\<bar> \<le> int (snd r)")
    case False
    then show ?thesis by (auto simp: window_def)
  next
    case True
    then have dy: "\<bar>dy\<bar> \<le> int (fst r)" and dx: "\<bar>dx\<bar> \<le> int (snd r)" by simp_all
    note ay = padded_axis [OF ys y r(1) dy]
    note ax = padded_axis [OF xs x r(2) dx]
    have hP: "snd (?ylo, ?yhi) \<le> length a" "snd (?xlo, ?xhi) \<le> W" by simp_all
    have lP: "length ?P = ?yhi - ?ylo" and rP: "list_all (\<lambda>row. length row = ?xhi - ?xlo) ?P"
      using crop_shape [OF rows hP] by simp_all
    have "lookup ?P ?i ?j = lookup a (int (fst ys + y) + dy) (int (fst xs + x) + dx)"
    proof (cases "0 \<le> ?i \<and> ?i < int (?yhi - ?ylo) \<and> 0 \<le> ?j \<and> ?j < int (?xhi - ?xlo)")
      case inside: True
      have "lookup ?P ?i ?j = lookup a (int (fst (?ylo, ?yhi)) + ?i) (int (fst (?xlo, ?xhi)) + ?j)"
        using inside by (intro lookup_crop [OF rows hP]) simp_all
      then show ?thesis by (simp only: fst_conv ay(3) ax(3))
    next
      case outside: False
      have "lookup ?P ?i ?j = None"
        using outside by (intro lookup_outside [OF rP]) (simp add: lP)
      moreover have "lookup a (int (fst ys + y) + dy) (int (fst xs + x) + dx) = None"
        using outside ay(4) ax(4) by (intro lookup_outside [OF rows]) blast
      ultimately show ?thesis by simp
    qed
    then show ?thesis using True by (simp add: window_def)
  qed
qed

lemma overlap_block_neighbourhood:
  assumes rows: "list_all (\<lambda>row. length row = W) a" and w: "width a = W"
    and ys: "fst ys \<le> snd ys" "snd ys \<le> length a"
    and xs: "fst xs \<le> snd xs" "snd xs \<le> W"
    and r: "fst r \<le> fst depth" "snd r \<le> snd depth"
  shows "overlap_block (neighbourhood k r) a depth ys xs = crop (neighbourhood k r a) ys xs"
proof -
  let ?ylo = "fst ys - fst depth" and ?yhi = "min (length a) (snd ys + fst depth)"
  let ?xlo = "fst xs - snd depth" and ?xhi = "min W (snd xs + snd depth)"
  let ?P = "crop a (?ylo, ?yhi) (?xlo, ?xhi)"
  let ?F = "neighbourhood k r"
  let ?ty = "(fst ys - ?ylo, snd ys - ?ylo)" and ?tx = "(fst xs - ?xlo, snd xs - ?xlo)"
  have ob: "overlap_block ?F a depth ys xs = crop (?F ?P) ?ty ?tx"
    by (simp add: overlap_block_def Let_def w)
  have hP: "snd (?ylo, ?yhi) \<le> length a" "snd (?xlo, ?xhi) \<le> W" by simp_all
  have lP: "length ?P = ?yhi - ?ylo" and rP: "list_all (\<lambda>row. length row = ?xhi - ?xlo) ?P"
    using crop_shape [OF rows hP] by simp_all
  have rFP: "list_all (\<lambda>row. length row = ?xhi - ?xlo) (?F ?P)"
    by (rule neighbourhood_rows [OF rP])
  have lFP: "length (?F ?P) = ?yhi - ?ylo" by (simp add: neighbourhood_shape(1) lP)
  have rFa: "list_all (\<lambda>row. length row = W) (?F a)"
    by (rule neighbourhood_rows [OF rows])
  have lFa: "length (?F a) = length a" by (rule neighbourhood_shape(1))
  have ty: "snd ?ty \<le> length (?F ?P)" and tx: "snd ?tx \<le> ?xhi - ?xlo"
    using ys xs by (simp_all add: lFP)
  have dy: "snd ?ty - fst ?ty = snd ys - fst ys" and dx: "snd ?tx - fst ?tx = snd xs - fst xs"
    using ys xs by simp_all
  have hy: "snd ys \<le> length (?F a)" using ys by (simp add: lFa)
  note sL = crop_shape [OF rFP ty tx]
  note sR = crop_shape [OF rFa hy xs(2)]
  have entry: "crop (?F ?P) ?ty ?tx ! y ! x = crop (?F a) ys xs ! y ! x"
    if y: "y < snd ys - fst ys" and x: "x < snd xs - fst xs" for y x
  proof -
    have y': "y < snd ?ty - fst ?ty" and x': "x < snd ?tx - fst ?tx"
      using y x dy dx by simp_all
    have iy: "fst ys - ?ylo + y < length ?P"
      unfolding lP by (rule trim_offset [OF y ys(2)])
    have ix: "fst xs - ?xlo + x < length (?P ! (fst ys - ?ylo + y))"
    proof -
      have "length (?P ! (fst ys - ?ylo + y)) = ?xhi - ?xlo"
        using rP iy by (simp add: list_all_length)
      then show ?thesis using trim_offset [OF x xs(2)] by simp
    qed
    have ay: "fst ys + y < length a" using y ys by simp
    have ax: "fst xs + x < length (a ! (fst ys + y))"
    proof -
      have "length (a ! (fst ys + y)) = W" using rows ay by (simp add: list_all_length)
      then show ?thesis using x xs by simp
    qed
    have "crop (?F ?P) ?ty ?tx ! y ! x = ?F ?P ! (fst ?ty + y) ! (fst ?tx + x)"
      by (rule crop_entry [OF rFP ty tx y' x'])
    also have "\<dots> = k (window ?P r (fst ys - ?ylo + y) (fst xs - ?xlo + x))"
      unfolding fst_conv by (rule neighbourhood_shape(3) [OF iy ix])
    also have "\<dots> = k (window a r (fst ys + y) (fst xs + x))"
      by (simp only: window_padded [OF rows ys xs r y x])
    also have "\<dots> = ?F a ! (fst ys + y) ! (fst xs + x)"
      by (rule neighbourhood_shape(3) [OF ay ax, symmetric])
    also have "\<dots> = crop (?F a) ys xs ! y ! x"
      by (rule crop_entry [OF rFa hy xs(2) y x, symmetric])
    finally show ?thesis .
  qed
  have "crop (?F ?P) ?ty ?tx = crop (?F a) ys xs"
  proof (rule nth_equalityI)
    show "length (crop (?F ?P) ?ty ?tx) = length (crop (?F a) ys xs)"
      using sL(1) sR(1) dy by simp
  next
    fix y assume "y < length (crop (?F ?P) ?ty ?tx)"
    then have y: "y < snd ys - fst ys" using sL(1) dy by simp
    show "crop (?F ?P) ?ty ?tx ! y = crop (?F a) ys xs ! y"
    proof (rule nth_equalityI)
      have "length (crop (?F ?P) ?ty ?tx ! y) = snd ?tx - fst ?tx"
        using sL y dy by (simp add: list_all_length)
      moreover have "length (crop (?F a) ys xs ! y) = snd xs - fst xs"
        using sR y by (simp add: list_all_length)
      ultimately show l: "length (crop (?F ?P) ?ty ?tx ! y) = length (crop (?F a) ys xs ! y)"
        using dx by simp
      fix x assume "x < length (crop (?F ?P) ?ty ?tx ! y)"
      then have "x < snd xs - fst xs"
        using \<open>length (crop (?F ?P) ?ty ?tx ! y) = snd ?tx - fst ?tx\<close> dx by simp
      then show "crop (?F ?P) ?ty ?tx ! y ! x = crop (?F a) ys xs ! y ! x"
        by (rule entry [OF y])
    qed
  qed
  with ob show ?thesis by simp
qed

text \<open>
  Claim C3. For a rectangular array, a block within it, and a neighbourhood transform
  whose support radius does not exceed the margin on either axis, the block evaluated
  with overlap (fetch padded and clamped, apply, trim) is the crop to that block of the
  transform applied to the whole array. The witness is a block at the right edge of a six
  by seven array with margins 1 and 2; its last line shows the same block with no margin,
  where the support does not fit and the result differs.
\<close>

theorem overlap_block_matches_whole_array:
  assumes "rectangular a"
    and "fst ys \<le> snd ys" and "snd ys \<le> length a"
    and "fst xs \<le> snd xs" and "snd xs \<le> width a"
    and "fst r \<le> fst depth" and "snd r \<le> snd depth"
  shows "overlap_block (neighbourhood k r) a depth ys xs = crop (neighbourhood k r a) ys xs"
  using rectangular_rows [OF assms(1)] refl assms(2-7)
  by (rule overlap_block_neighbourhood)

theorem overlap_block_matches_whole_array_witness:
  "rectangular (scenario_plane 6 7 1 2) \<and>
   fst (2 :: nat, 4 :: nat) \<le> snd (2 :: nat, 4 :: nat) \<and>
   snd (2 :: nat, 4 :: nat) \<le> length (scenario_plane 6 7 1 2) \<and>
   fst (4 :: nat, 7 :: nat) \<le> snd (4 :: nat, 7 :: nat) \<and>
   snd (4 :: nat, 7 :: nat) \<le> width (scenario_plane 6 7 1 2) \<and>
   overlap_block (neighbourhood box_sum (1, 1)) (scenario_plane 6 7 1 2) (1, 2) (2, 4) (4, 7)
     = crop (neighbourhood box_sum (1, 1) (scenario_plane 6 7 1 2)) (2, 4) (4, 7) \<and>
   crop (neighbourhood box_sum (1, 1) (scenario_plane 6 7 1 2)) (2, 4) (4, 7)
     = [[45, 54, 39], [50, 48, 35]] \<and>
   overlap_block (neighbourhood box_sum (1, 1)) (scenario_plane 6 7 1 2) (0, 0) (2, 4) (4, 7)
     = [[28, 45, 32], [28, 45, 32]]"
proof -
  let ?a = "scenario_plane 6 7 1 2"
  have h1: "rectangular ?a" by code_simp
  have h2: "fst (2 :: nat, 4 :: nat) \<le> snd (2 :: nat, 4 :: nat)" by simp
  have h3: "snd (2 :: nat, 4 :: nat) \<le> length ?a" by code_simp
  have h4: "fst (4 :: nat, 7 :: nat) \<le> snd (4 :: nat, 7 :: nat)" by simp
  have h5: "snd (4 :: nat, 7 :: nat) \<le> width ?a" by code_simp
  have h6: "fst (1 :: nat, 1 :: nat) \<le> fst (1 :: nat, 2 :: nat)" by simp
  have h7: "snd (1 :: nat, 1 :: nat) \<le> snd (1 :: nat, 2 :: nat)" by simp
  have e: "overlap_block (neighbourhood box_sum (1, 1)) ?a (1, 2) (2, 4) (4, 7)
     = crop (neighbourhood box_sum (1, 1) ?a) (2, 4) (4, 7)"
    by (rule overlap_block_matches_whole_array [OF h1 h2 h3 h4 h5 h6 h7])
  have v: "crop (neighbourhood box_sum (1, 1) ?a) (2, 4) (4, 7) = [[45, 54, 39], [50, 48, 35]]"
    by code_simp
  have n: "overlap_block (neighbourhood box_sum (1, 1)) ?a (0, 0) (2, 4) (4, 7)
     = [[28, 45, 32], [28, 45, 32]]"
    by code_simp
  show ?thesis using h1 h2 h3 h4 h5 e v n by (intro conjI)
qed

end
